theory Spec2Isabelle
  imports Main
begin

section \<open>Dates and times\<close>

text \<open>
  The program computes with dayjs values. A valid dayjs value is modelled by its calendar
  fields, as dayjs itself keeps them (\<open>$y\<close>, \<open>$M\<close>, \<open>$D\<close>, \<open>$H\<close>, \<open>$m\<close>, \<open>$s\<close>, \<open>$ms\<close>);
  the month is counted from 1 here, so \<open>month()\<close> of the source is \<open>mo d - 1\<close>. An invalid
  value (\<open>Invalid Date\<close>) is \<open>None\<close>. The local time zone is taken to be UTC, so that the
  local fields are also the fields \<open>toISOString\<close> prints.
\<close>

record dt =
  yr :: int
  mo :: nat
  dy :: nat
  hr :: nat
  mi :: nat
  sc :: nat
  ms :: nat

type_synonym dayjs = "dt option"

definition leap :: "int \<Rightarrow> bool" where
  "leap y = (y mod 4 = 0 \<and> (y mod 100 \<noteq> 0 \<or> y mod 400 = 0))"

definition daysInMonth :: "int \<Rightarrow> nat \<Rightarrow> nat" where
  "daysInMonth y m =
     (if m = 2 then (if leap y then 29 else 28)
      else if m = 4 \<or> m = 6 \<or> m = 9 \<or> m = 11 then 30 else 31)"

definition next_day :: "dt \<Rightarrow> dt" where
  "next_day d =
     (if dy d < daysInMonth (yr d) (mo d) then d\<lparr>dy := dy d + 1\<rparr>
      else if mo d < 12 then d\<lparr>mo := mo d + 1, dy := 1\<rparr>
      else d\<lparr>yr := yr d + 1, mo := 1, dy := 1\<rparr>)"

definition prev_day :: "dt \<Rightarrow> dt" where
  "prev_day d =
     (if 1 < dy d then d\<lparr>dy := dy d - 1\<rparr>
      else if 1 < mo d then d\<lparr>mo := mo d - 1, dy := daysInMonth (yr d) (mo d - 1)\<rparr>
      else d\<lparr>yr := yr d - 1, mo := 12, dy := 31\<rparr>)"

fun forward :: "nat \<Rightarrow> dt \<Rightarrow> dt" where
  "forward 0 d = d"
| "forward (Suc n) d = forward n (next_day d)"

fun backward :: "nat \<Rightarrow> dt \<Rightarrow> dt" where
  "backward 0 d = d"
| "backward (Suc n) d = backward n (prev_day d)"

text \<open>\<open>add(n, 'day')\<close>: the same time of day, \<open>n\<close> days later (earlier when negative).\<close>

definition add_days :: "int \<Rightarrow> dt \<Rightarrow> dt" where
  "add_days n d = (if 0 \<le> n then forward (nat n) d else backward (nat (- n)) d)"

text \<open>
  \<open>add(n, 'month')\<close> and \<open>add(n, 'year')\<close>: dayjs moves to the first of the target month and
  then restores the day of month, clamped to the length of that month.
\<close>

definition add_months :: "int \<Rightarrow> dt \<Rightarrow> dt" where
  "add_months n d =
     (let k = int (mo d) - 1 + n; y = yr d + k div 12; m = nat (k mod 12) + 1
      in d\<lparr>yr := y, mo := m, dy := min (dy d) (daysInMonth y m)\<rparr>)"

definition add_years :: "int \<Rightarrow> dt \<Rightarrow> dt" where
  "add_years n d =
     (let y = yr d + n in d\<lparr>yr := y, dy := min (dy d) (daysInMonth y (mo d))\<rparr>)"

definition add_hours :: "int \<Rightarrow> dt \<Rightarrow> dt" where
  "add_hours n d =
     (let h = int (hr d) + n in add_days (h div 24) (d\<lparr>hr := nat (h mod 24)\<rparr>))"

text \<open>Days since 1970-01-01, for comparing instants and for the day of the week.\<close>

definition days_before_year :: "int \<Rightarrow> int" where
  "days_before_year y =
     365 * (y - 1970) + ((y - 1) div 4 - (y - 1) div 100 + (y - 1) div 400) - 477"

fun days_before_month :: "int \<Rightarrow> nat \<Rightarrow> nat" where
  "days_before_month y 0 = 0"
| "days_before_month y (Suc 0) = 0"
| "days_before_month y (Suc (Suc m)) = days_before_month y (Suc m) + daysInMonth y (Suc m)"

definition day_number :: "dt \<Rightarrow> int" where
  "day_number d = days_before_year (yr d) + int (days_before_month (yr d) (mo d)) + int (dy d) - 1"

definition valueOf :: "dt \<Rightarrow> int" where
  "valueOf d =
     day_number d * 86400000 + int (hr d) * 3600000 + int (mi d) * 60000 + int (sc d) * 1000
       + int (ms d)"

text \<open>\<open>day()\<close>: 0 is Sunday; 1970-01-01 was a Thursday.\<close>

definition weekday :: "dt \<Rightarrow> nat" where
  "weekday d = nat ((day_number d + 4) mod 7)"

text \<open>\<open>day(k)\<close> moves within the current Sunday-based week; \<open>date(k)\<close> sets the day of the
  month, overflowing into the neighbouring months as the JavaScript \<open>Date\<close> does.\<close>

definition set_day :: "int \<Rightarrow> dt \<Rightarrow> dt" where
  "set_day k d = add_days (k - int (weekday d)) d"

definition set_date :: "int \<Rightarrow> dt \<Rightarrow> dt" where
  "set_date k d = add_days (k - int (dy d)) d"

text \<open>Comparisons are false as soon as one side is invalid.\<close>

fun isAfter :: "dayjs \<Rightarrow> dayjs \<Rightarrow> bool" where
  "isAfter (Some a) (Some b) = (valueOf b < valueOf a)"
| "isAfter _ _ = False"

fun isBefore :: "dayjs \<Rightarrow> dayjs \<Rightarrow> bool" where
  "isBefore (Some a) (Some b) = (valueOf a < valueOf b)"
| "isBefore _ _ = False"

subsection \<open>Values that may be invalid\<close>

text \<open>
  dayjs arithmetic on values that may be invalid. A count that is \<open>NaN\<close> (\<open>None\<close>) makes the
  result invalid, and so does leaving the range of the JavaScript \<open>Date\<close>, which ends
  8 640 000 000 000 000 milliseconds (100 000 000 days) on either side of 1970-01-01.
\<close>

definition in_Date_range :: "dt \<Rightarrow> dayjs" where
  "in_Date_range d = (if \<bar>valueOf d\<bar> \<le> 8640000000000000 then Some d else None)"

datatype time_unit = Hour | Day | Week | Month | Year

fun add_unit :: "time_unit \<Rightarrow> int \<Rightarrow> dt \<Rightarrow> dt" where
  "add_unit Hour n d = add_hours n d"
| "add_unit Day n d = add_days n d"
| "add_unit Week n d = add_days (7 * n) d"
| "add_unit Month n d = add_months n d"
| "add_unit Year n d = add_years n d"

fun dj_add :: "int option \<Rightarrow> time_unit \<Rightarrow> dayjs \<Rightarrow> dayjs" where
  "dj_add (Some n) u (Some d) = in_Date_range (add_unit u n d)"
| "dj_add _ u _ = None"

fun dj_day :: "int \<Rightarrow> dayjs \<Rightarrow> dayjs" where
  "dj_day k (Some d) = in_Date_range (set_day k d)"
| "dj_day k None = None"

fun dj_date :: "int option \<Rightarrow> dayjs \<Rightarrow> dayjs" where
  "dj_date (Some k) (Some d) = in_Date_range (set_date k d)"
| "dj_date _ _ = None"

subsection \<open>Printing\<close>

definition digit :: "nat \<Rightarrow> char" where
  "digit n = ''0123456789'' ! (n mod 10)"

function digits :: "nat \<Rightarrow> string" where
  "digits n = (if n < 10 then [digit n] else digits (n div 10) @ [digit n])"
  by pat_completeness auto
termination
  by (relation "measure id") auto

definition padStart :: "nat \<Rightarrow> string \<Rightarrow> string" where
  "padStart w s = replicate (w - length s) (CHR ''0'') @ s"

text \<open>The decimal digits of an integer that is not negative; a year can be large.\<close>

function digits_of :: "int \<Rightarrow> string" where
  "digits_of i =
     (if i < 10 then [digit (nat i)] else digits_of (i div 10) @ [digit (nat (i mod 10))])"
  by pat_completeness auto
termination
  by (relation "measure nat") auto

definition show_int :: "int \<Rightarrow> string" where
  "show_int i = (if i < 0 then ''-'' @ digits_of (- i) else digits_of i)"

definition pad2 :: "nat \<Rightarrow> string" where
  "pad2 n = padStart 2 (digits n)"

text \<open>\<open>format('YYYY-MM-DD')\<close> and \<open>format('HH:mm')\<close>.\<close>

definition format_date :: "dt \<Rightarrow> string" where
  "format_date d = padStart 4 (show_int (yr d)) @ ''-'' @ pad2 (mo d) @ ''-'' @ pad2 (dy d)"

definition format_time :: "dt \<Rightarrow> string" where
  "format_time d = pad2 (hr d) @ '':'' @ pad2 (mi d)"

text \<open>\<open>toISOString()\<close>; years outside 0..9999 are printed with a sign and six digits.\<close>

definition iso_year :: "int \<Rightarrow> string" where
  "iso_year y =
     (if 0 \<le> y \<and> y \<le> 9999 then padStart 4 (digits_of y)
      else (if y < 0 then ''-'' else ''+'') @ padStart 6 (digits_of \<bar>y\<bar>))"

definition toISOString :: "dt \<Rightarrow> string" where
  "toISOString d =
     iso_year (yr d) @ ''-'' @ pad2 (mo d) @ ''-'' @ pad2 (dy d) @ ''T'' @ pad2 (hr d) @ '':''
       @ pad2 (mi d) @ '':'' @ pad2 (sc d) @ ''.'' @ padStart 3 (digits (ms d)) @ ''Z''"

text \<open>Printing a value that may be invalid: \<open>format\<close> gives the text \<open>Invalid Date\<close>, and
  \<open>toISOString\<close> throws a \<open>RangeError\<close> (\<open>None\<close> here).\<close>

definition format_dayjs :: "dayjs \<Rightarrow> string" where
  "format_dayjs d = (case d of None \<Rightarrow> ''Invalid Date'' | Some x \<Rightarrow> format_date x)"

definition dj_toISOString :: "dayjs \<Rightarrow> string option" where
  "dj_toISOString d = map_option toISOString d"

subsection \<open>Reading date strings\<close>

text \<open>
  How dayjs and the JavaScript \<open>Date\<close> read a string is not part of the repository, and the
  set of accepted formats depends on the engine. The two readers are therefore parameters of
  every function that parses: \<open>dayjs_str\<close> is \<open>dayjs(s)\<close> and \<open>Date_str\<close> is \<open>new Date(s)\<close>.
\<close>

record datelib =
  dayjs_str :: "string \<Rightarrow> dayjs"
  Date_str :: "string \<Rightarrow> dayjs"

text \<open>
  A concrete reader for evaluation: it accepts \<open>YYYY-MM-DD\<close>, \<open>YYYY-MM-DDTHH:mm:ssZ\<close> and
  \<open>YYYY-MM-DDTHH:mm:ss.SSSZ\<close>, the last also with a sign and a year of six digits (the form
  \<open>toISOString\<close> prints beyond the year 9999), when the fields denote an existing date and time
  within the range of \<open>Date\<close>.
\<close>

definition is_digit :: "char \<Rightarrow> bool" where
  "is_digit c = ((48::nat) \<le> of_char c \<and> of_char c \<le> (57::nat))"

definition digit_val :: "char \<Rightarrow> nat" where
  "digit_val c = of_char c - 48"

definition read_nat :: "string \<Rightarrow> nat option" where
  "read_nat s =
     (if s \<noteq> [] \<and> list_all is_digit s then Some (foldl (\<lambda>a c. 10 * a + digit_val c) 0 s)
      else None)"

definition read_year :: "string \<Rightarrow> int option" where
  "read_year s =
     (if s \<noteq> [] \<and> list_all is_digit s
      then Some (foldl (\<lambda>a c. 10 * a + int (digit_val c)) 0 s)
      else None)"

definition mk_dt :: "int option \<Rightarrow> nat option \<Rightarrow> nat option \<Rightarrow> nat option \<Rightarrow> nat option
    \<Rightarrow> nat option \<Rightarrow> nat option \<Rightarrow> dayjs" where
  "mk_dt y m d h n s f =
     (case (y, m, d, h, n, s, f) of
        (Some y, Some m, Some d, Some h, Some n, Some s, Some f) \<Rightarrow>
          (if 1 \<le> m \<and> m \<le> 12 \<and> 1 \<le> d \<and> d \<le> daysInMonth y m \<and> h < 24 \<and> n < 60 \<and> s < 60
           then in_Date_range \<lparr>yr = y, mo = m, dy = d, hr = h, mi = n, sc = s, ms = f\<rparr>
           else None)
      | _ \<Rightarrow> None)"

definition slice :: "nat \<Rightarrow> nat \<Rightarrow> string \<Rightarrow> string" where
  "slice a b s = take (b - a) (drop a s)"

text \<open>The text after the year: \<open>-MM-DD\<close>, alone or followed by the time of day.\<close>

definition read_after_year :: "int option \<Rightarrow> bool \<Rightarrow> string \<Rightarrow> dayjs" where
  "read_after_year y long s =
     (let md = (slice 0 1 s = ''-'' \<and> slice 3 4 s = ''-'');
          hms = (slice 6 7 s = ''T'' \<and> slice 9 10 s = '':'' \<and> slice 12 13 s = '':'');
          m = read_nat (slice 1 3 s); d = read_nat (slice 4 6 s);
          h = read_nat (slice 7 9 s); n = read_nat (slice 10 12 s);
          e = read_nat (slice 13 15 s)
      in if length s = 6 \<and> md \<and> \<not> long then mk_dt y m d (Some 0) (Some 0) (Some 0) (Some 0)
         else if length s = 16 \<and> md \<and> hms \<and> slice 15 16 s = ''Z'' \<and> \<not> long
           then mk_dt y m d h n e (Some 0)
         else if length s = 20 \<and> md \<and> hms \<and> slice 15 16 s = ''.'' \<and> slice 19 20 s = ''Z''
           then mk_dt y m d h n e (read_nat (slice 16 19 s))
         else None)"

definition iso_read :: "string \<Rightarrow> dayjs" where
  "iso_read s =
     (if slice 0 1 s = ''+'' then
        read_after_year (read_year (slice 1 7 s)) True (drop 7 s)
      else if slice 0 1 s = ''-'' then
        (case read_year (slice 1 7 s) of
           Some y \<Rightarrow> if y = 0 then None else read_after_year (Some (- y)) True (drop 7 s)
         | None \<Rightarrow> None)
      else read_after_year (read_year (slice 0 4 s)) False (drop 4 s))"

definition iso_lib :: datelib where
  "iso_lib = \<lparr>dayjs_str = iso_read, Date_str = iso_read\<rparr>"

section \<open>Records and remote events\<close>

text \<open>
  Modelled from the spec: the declarations of \<open>DataRecord\<close> and \<open>DataValue\<close> (the data frame
  module) are not among the sources. A record is an identifier and a mapping from field name to
  value (string, number, boolean, date, or list thereof). Here \<open>null\<close> is a stored value too,
  an absent field is \<open>undefined\<close>, numbers are the integral ones and lists hold strings. The
  fields (\<open>values\<close> in the source, \<open>id\<close> being \<open>rid\<close>) are kept in the order they were
  written, the first entry of a name being the current one.
\<close>

datatype datavalue =
    VNull
  | VStr string
  | VNum int
  | VBool bool
  | VDate dayjs
  | VList "string list"

type_synonym fields = "(string \<times> datavalue) list"

record DataRecord =
  rid :: string
  vals :: fields


definition field :: "fields \<Rightarrow> string \<Rightarrow> datavalue option" where
  "field fs k = map_of fs k"

definition set_field :: "string \<Rightarrow> datavalue \<Rightarrow> fields \<Rightarrow> fields" where
  "set_field k v fs = (k, v) # filter (\<lambda>p. fst p \<noteq> k) fs"

text \<open>The object spread \<open>{...a, ...b}\<close>: the fields of \<open>b\<close> win.\<close>

definition spread :: "fields \<Rightarrow> fields \<Rightarrow> fields" where
  "spread a b = b @ filter (\<lambda>p. fst p \<notin> fst ` set b) a"

text \<open>JavaScript truthiness, and \<open>a || b\<close> on optional values.\<close>

fun truthy :: "datavalue option \<Rightarrow> bool" where
  "truthy None = False"
| "truthy (Some VNull) = False"
| "truthy (Some (VStr s)) = (s \<noteq> [])"
| "truthy (Some (VNum n)) = (n \<noteq> 0)"
| "truthy (Some (VBool b)) = b"
| "truthy (Some (VDate d)) = True"
| "truthy (Some (VList l)) = True"

definition js_or :: "datavalue option \<Rightarrow> datavalue option \<Rightarrow> datavalue option" where
  "js_or a b = (if truthy a then a else b)"

definition str_or :: "string option \<Rightarrow> string option \<Rightarrow> string option" where
  "str_or a b = (if a \<noteq> None \<and> a \<noteq> Some [] then a else b)"

definition str_truthy :: "string option \<Rightarrow> bool" where
  "str_truthy a = (a \<noteq> None \<and> a \<noteq> Some [])"

text \<open>A boundary of a remote event, the remote event, and the partial event the mapper
  builds for a record.\<close>

record boundary =
  dateTime :: "string option"
  date :: "string option"
  timeZone :: "string option"

record GoogleCalendarEvent =
  e_id :: string
  e_summary :: "string option"
  e_description :: "string option"
  e_location :: "string option"
  e_start :: boundary
  e_end :: boundary
  e_updated :: "string option"
  e_recurrence :: "string list option"
  e_recurringEventId :: "string option"

record PartialEvent =
  p_summary :: datavalue
  p_description :: "datavalue option"
  p_location :: "datavalue option"
  p_start :: "boundary option"
  p_end :: "boundary option"

definition date_only :: "string \<Rightarrow> boundary" where
  "date_only s = \<lparr>dateTime = None, date = Some s, timeZone = None\<rparr>"

definition date_time :: "string \<Rightarrow> boundary" where
  "date_time s = \<lparr>dateTime = Some s, date = None, timeZone = None\<rparr>"

text \<open>The errors the mapper throws, by the message of the source.\<close>

datatype jserror =
    DateRequired string
  | InvalidDateFormat string
  | InvalidDate string
  | InvalidTimeFormat
  | InvalidTimeValues
  | NoDateInformation
  | TypeError
  | RangeError

section \<open>Event-record mapper\<close>

text \<open>
  \<open>new Date(v)\<close> and \<open>dayjs(v)\<close> for a truthy field value. A string goes to the reader; a
  number is a count of milliseconds since 1970 (\<open>true\<close> is 1); a date is itself; a list is
  joined with commas and read by \<open>Date\<close>, also under dayjs.
\<close>

definition epoch :: dt where
  "epoch = \<lparr>yr = 1970, mo = 1, dy = 1, hr = 0, mi = 0, sc = 0, ms = 0\<rparr>"

definition of_millis :: "int \<Rightarrow> dayjs" where
  "of_millis n =
     (if \<bar>n\<bar> \<le> 8640000000000000 then
        (let r = n mod 86400000
         in Some ((add_days (n div 86400000) epoch)
              \<lparr>hr := nat (r div 3600000), mi := nat (r div 60000 mod 60),
               sc := nat (r div 1000 mod 60), ms := nat (r mod 1000)\<rparr>))
      else None)"

fun join :: "string list \<Rightarrow> string" where
  "join [] = []"
| "join [s] = s"
| "join (s # t) = s @ '','' @ join t"

fun new_Date :: "datelib \<Rightarrow> datavalue \<Rightarrow> dayjs" where
  "new_Date L VNull = of_millis 0"
| "new_Date L (VStr s) = Date_str L s"
| "new_Date L (VNum n) = of_millis n"
| "new_Date L (VBool b) = of_millis (if b then 1 else 0)"
| "new_Date L (VDate d) = d"
| "new_Date L (VList l) = Date_str L (join l)"

fun dayjs_of :: "datelib \<Rightarrow> datavalue \<Rightarrow> dayjs" where
  "dayjs_of L VNull = None"
| "dayjs_of L (VStr s) = dayjs_str L s"
| "dayjs_of L v = new_Date L v"

definition isValidDateString :: "datelib \<Rightarrow> datavalue option \<Rightarrow> bool" where
  "isValidDateString L v =
     (if \<not> truthy v then False
      else case v of Some x \<Rightarrow> new_Date L x \<noteq> None | None \<Rightarrow> False)"

definition safeDateParse :: "datelib \<Rightarrow> datavalue option \<Rightarrow> string \<Rightarrow> jserror + dt" where
  "safeDateParse L v fieldName =
     (if \<not> truthy v then Inl (DateRequired fieldName)
      else if \<not> isValidDateString L v then Inl (InvalidDateFormat fieldName)
      else case v of
             None \<Rightarrow> Inl (DateRequired fieldName)
           | Some x \<Rightarrow>
               (case dayjs_of L x of
                  None \<Rightarrow> Inl (InvalidDate fieldName)
                | Some d \<Rightarrow> Inr d))"

text \<open>\<open>mapGoogleEventToFrontmatter\<close>; \<open>now\<close> is the clock reading of \<open>dayjs()\<close>. The fields
  it writes before it looks at the boundaries are \<open>base_frontmatter\<close>.\<close>

definition when_set :: "bool \<Rightarrow> (fields \<Rightarrow> fields) \<Rightarrow> fields \<Rightarrow> fields" where
  "when_set c f fs = (if c then f fs else fs)"

definition base_frontmatter :: "dt \<Rightarrow> GoogleCalendarEvent \<Rightarrow> fields" where
  "base_frontmatter now event =
     (let baseEventId = (case str_or (e_recurringEventId event) (Some (e_id event)) of
                           Some i \<Rightarrow> i | None \<Rightarrow> e_id event);
          f0 = [(''google-event-id'', VStr baseEventId),
                (''google-calendar-sync'', VBool True),
                (''google-calendar-last-sync'', VStr (toISOString now)),
                (''tags'', VList [''arcane-default'', ''calendar-event''])];
          f1 = (case e_description event of
                  Some s \<Rightarrow> when_set (s \<noteq> []) (set_field ''description'' (VStr s)) f0
                | None \<Rightarrow> f0);
          f2 = (case e_location event of
                  Some s \<Rightarrow> when_set (s \<noteq> []) (set_field ''location'' (VStr s)) f1
                | None \<Rightarrow> f1);
          f3 = (case e_recurrence event of
                  Some r \<Rightarrow> when_set (0 < length r)
                      (set_field ''google-is-recurring'' (VBool True)
                         \<circ> set_field ''google-recurrence'' (VList r)) f2
                | None \<Rightarrow> f2)
      in case e_recurringEventId event of
           Some i \<Rightarrow> when_set (i \<noteq> [])
               (set_field ''google-is-recurring'' (VBool True)
                  \<circ> set_field ''google-recurring-event-id'' (VStr i)) f3
         | None \<Rightarrow> f3)"

definition mapGoogleEventToFrontmatter :: "datelib \<Rightarrow> dt \<Rightarrow> GoogleCalendarEvent \<Rightarrow> jserror + fields" where
  "mapGoogleEventToFrontmatter L now event =
     (let startDateTime = str_or (dateTime (e_start event)) (date (e_start event));
          endDateTime = str_or (dateTime (e_end event)) (date (e_end event));
          isAllDay = \<not> str_truthy (dateTime (e_start event));
          frontmatter = base_frontmatter now event
      in if isAllDay then
           (case safeDateParse L (map_option VStr startDateTime) ''start date'' of
              Inl err \<Rightarrow> Inl err
            | Inr s \<Rightarrow> Inr (set_field ''due-date'' (VStr (format_date s)) frontmatter))
         else
           (case safeDateParse L (map_option VStr startDateTime) ''start date'' of
              Inl err \<Rightarrow> Inl err
            | Inr startTime \<Rightarrow>
                (case safeDateParse L (map_option VStr endDateTime) ''end date'' of
                   Inl err \<Rightarrow> Inl err
                 | Inr endTime \<Rightarrow>
                     Inr (set_field ''end-date'' (VStr (toISOString endTime))
                          (set_field ''start-date'' (VStr (toISOString startTime))
                          (set_field ''due-date'' (VStr (format_date startTime))
                          (set_field ''end-time'' (VStr (format_time endTime))
                          (set_field ''start-time'' (VStr (format_time startTime))
                             frontmatter))))))))"

text \<open>
  \<open>parseInt(s, 10)\<close>: leading white space, an optional sign, then the longest run of decimal
  digits; \<open>None\<close> is \<open>NaN\<close>. \<open>split(':')\<close> cuts a string at every colon.
\<close>

definition is_space :: "char \<Rightarrow> bool" where
  "is_space c = (of_char c = (32::nat) \<or> ((9::nat) \<le> of_char c \<and> of_char c \<le> (13::nat)))"

definition parseInt10 :: "string \<Rightarrow> int option" where
  "parseInt10 s =
     (let t = dropWhile is_space s;
          neg = (t \<noteq> [] \<and> hd t = CHR ''-'');
          u = (if t \<noteq> [] \<and> (hd t = CHR ''-'' \<or> hd t = CHR ''+'') then tl t else t);
          ds = takeWhile is_digit u
      in if ds = [] then None
         else Some ((if neg then - 1 else 1) * foldl (\<lambda>a c. 10 * a + int (digit_val c)) 0 ds))"

fun split_on :: "char \<Rightarrow> string \<Rightarrow> string list" where
  "split_on c [] = [[]]"
| "split_on c (x # xs) =
     (if x = c then [] # split_on c xs
      else (case split_on c xs of p # ps \<Rightarrow> (x # p) # ps | [] \<Rightarrow> [[x]]))"

definition or_zero :: "string \<Rightarrow> string" where
  "or_zero s = (if s = [] then ''0'' else s)"

definition in_range :: "int option \<Rightarrow> int \<Rightarrow> bool" where
  "in_range v hi = (case v of None \<Rightarrow> False | Some n \<Rightarrow> 0 \<le> n \<and> n \<le> hi)"

text \<open>
  \<open>hour(h).minute(m).second(0)\<close> for an hour and a minute that have passed the range check:
  the three fields are set. The value is invalid when that leaves the range of \<open>Date\<close>, which
  happens only for a later time of day on the last day of the range, where already the first
  setter that changes a field leaves it.
\<close>

definition at_clock :: "dt \<Rightarrow> int option \<Rightarrow> int option \<Rightarrow> dayjs" where
  "at_clock d h m =
     in_Date_range
       (d\<lparr>hr := (case h of Some n \<Rightarrow> nat n | None \<Rightarrow> 0),
          mi := (case m of Some n \<Rightarrow> nat n | None \<Rightarrow> 0), sc := 0\<rparr>)"

text \<open>The timing of \<open>mapRecordToGoogleEvent\<close>: its four cases, tried in the source's order.
  Adding a day or an hour, and setting the time of day, can leave the range of \<open>Date\<close>: the
  date-only end is then the text \<open>Invalid Date\<close>, and printing an instant throws.\<close>

definition event_timing :: "datelib \<Rightarrow> fields \<Rightarrow> jserror + (boundary \<times> boundary)" where
  "event_timing L v =
     (let startDate = field v ''start-date'';
          endDate = field v ''end-date'';
          dueDate = js_or (field v ''due-date'') (field v ''due'');
          startTime = field v ''start-time'';
          endTime = field v ''end-time''
      in if truthy startDate \<and> truthy endDate then
           (case safeDateParse L startDate ''start-date'' of
              Inl err \<Rightarrow> Inl err
            | Inr start \<Rightarrow>
                (case safeDateParse L endDate ''end-date'' of
                   Inl err \<Rightarrow> Inl err
                 | Inr end' \<Rightarrow>
                     if hr start \<noteq> 0 \<or> mi start \<noteq> 0 \<or> hr end' \<noteq> 0 \<or> mi end' \<noteq> 0
                     then Inr (date_time (toISOString start), date_time (toISOString end'))
                     else Inr (date_only (format_date start),
                               date_only (format_dayjs (dj_add (Some 1) Day (Some end'))))))
         else if truthy dueDate \<and> truthy startTime \<and> truthy endTime then
           (case safeDateParse L dueDate ''due-date'' of
              Inl err \<Rightarrow> Inl err
            | Inr dueDay \<Rightarrow>
                (case (startTime, endTime) of
                   (Some (VStr st), Some (VStr et)) \<Rightarrow>
                     (let startTimeParts = split_on (CHR '':'') st;
                          endTimeParts = split_on (CHR '':'') et
                      in if length startTimeParts \<noteq> 2 \<or> length endTimeParts \<noteq> 2
                         then Inl InvalidTimeFormat
                         else
                           (let startHour = parseInt10 (or_zero (startTimeParts ! 0));
                                startMinute = parseInt10 (or_zero (startTimeParts ! 1));
                                endHour = parseInt10 (or_zero (endTimeParts ! 0));
                                endMinute = parseInt10 (or_zero (endTimeParts ! 1))
                            in if \<not> in_range startHour 23 \<or> \<not> in_range startMinute 59
                                  \<or> \<not> in_range endHour 23 \<or> \<not> in_range endMinute 59
                               then Inl InvalidTimeValues
                               else
                                 (case dj_toISOString (at_clock dueDay startHour startMinute) of
                                    None \<Rightarrow> Inl RangeError
                                  | Some startText \<Rightarrow>
                                      (case dj_toISOString (at_clock dueDay endHour endMinute) of
                                         None \<Rightarrow> Inl RangeError
                                       | Some endText \<Rightarrow>
                                           Inr (date_time startText, date_time endText)))))
                 | _ \<Rightarrow> Inl TypeError))
         else if truthy dueDate then
           (case safeDateParse L dueDate ''due-date'' of
              Inl err \<Rightarrow> Inl err
            | Inr due \<Rightarrow>
                if hr due \<noteq> 0 \<or> mi due \<noteq> 0
                then
                  (case dj_toISOString (dj_add (Some 1) Hour (Some due)) of
                     None \<Rightarrow> Inl RangeError
                   | Some endText \<Rightarrow> Inr (date_time (toISOString due), date_time endText))
                else Inr (date_only (format_date due),
                          date_only (format_dayjs (dj_add (Some 1) Day (Some due)))))
         else Inl NoDateInformation)"

definition mapRecordToGoogleEvent :: "datelib \<Rightarrow> DataRecord \<Rightarrow> jserror + PartialEvent" where
  "mapRecordToGoogleEvent L record' =
     (let v = vals record';
          summary = (case js_or (js_or (field v ''title'') (field v ''name''))
                            (Some (VStr ''Untitled Event'')) of
                       Some s \<Rightarrow> s | None \<Rightarrow> VStr ''Untitled Event'');
          description = (if truthy (field v ''description'') then field v ''description'' else None);
          location = (if truthy (field v ''location'') then field v ''location'' else None)
      in case event_timing L v of
           Inl err \<Rightarrow> Inl err
         | Inr (s, e) \<Rightarrow>
             Inr \<lparr>p_summary = summary, p_description = description, p_location = location,
                  p_start = Some s, p_end = Some e\<rparr>)"

text \<open>\<open>isCalendarEvent\<close>, \<open>shouldSyncToGoogle\<close>, \<open>isRecordModified\<close> and
  \<open>extractGoogleCalendarMetadata\<close>.\<close>

definition isCalendarEvent :: "DataRecord \<Rightarrow> bool" where
  "isCalendarEvent record' =
     (let v = vals record'
      in if field v ''google-calendar-sync'' = Some (VBool False) then False
         else (truthy (field v ''start-date'') \<and> truthy (field v ''end-date''))
              \<or> truthy (js_or (field v ''due-date'') (field v ''due'')))"

definition shouldSyncToGoogle :: "DataRecord \<Rightarrow> bool" where
  "shouldSyncToGoogle record' =
     (if \<not> isCalendarEvent record' then False
      else (let syncEnabled = field (vals record') ''google-calendar-sync''
            in syncEnabled = Some (VBool True) \<or> syncEnabled = None))"

definition isRecordModified :: "DataRecord \<Rightarrow> bool" where
  "isRecordModified record' =
     (let lastSync = field (vals record') ''google-calendar-last-sync''
      in if \<not> truthy lastSync then True
         else \<not> truthy (field (vals record') ''google-event-id''))"

record metadata =
  eventId :: "datavalue option"
  calendarId :: "datavalue option"
  lastSync :: "datavalue option"
  syncEnabled :: bool

definition extractGoogleCalendarMetadata :: "DataRecord \<Rightarrow> metadata" where
  "extractGoogleCalendarMetadata record' =
     (let v = vals record'
      in \<lparr>eventId = field v ''google-event-id'',
          calendarId = field v ''google-calendar-id'',
          lastSync = field v ''google-calendar-last-sync'',
          syncEnabled = (field v ''google-calendar-sync'' \<noteq> Some (VBool False))\<rparr>)"







section \<open>Recurrence expander\<close>

text \<open>
  \<open>parseInt(s)\<close> without a radix: as \<open>parseInt(s, 10)\<close>, but a \<open>0x\<close> or \<open>0X\<close> after the sign
  switches to hexadecimal digits.
\<close>

definition hex_val :: "char \<Rightarrow> nat option" where
  "hex_val c =
     (let n = (of_char c :: nat)
      in if 48 \<le> n \<and> n \<le> 57 then Some (n - 48)
         else if 97 \<le> n \<and> n \<le> 102 then Some (n - 87)
         else if 65 \<le> n \<and> n \<le> 70 then Some (n - 55)
         else None)"

definition parseInt :: "string \<Rightarrow> int option" where
  "parseInt s =
     (let t = dropWhile is_space s;
          neg = (t \<noteq> [] \<and> hd t = CHR ''-'');
          u = (if t \<noteq> [] \<and> (hd t = CHR ''-'' \<or> hd t = CHR ''+'') then tl t else t);
          sign = (if neg then - 1 else 1)
      in if take 2 u = ''0x'' \<or> take 2 u = ''0X'' then
           (let ds = takeWhile (\<lambda>c. hex_val c \<noteq> None) (drop 2 u)
            in if ds = [] then None
               else Some (sign * foldl (\<lambda>a c. 16 * a + int (case hex_val c of Some v \<Rightarrow> v | None \<Rightarrow> 0)) 0 ds))
         else
           (let ds = takeWhile is_digit u
            in if ds = [] then None
               else Some (sign * foldl (\<lambda>a c. 10 * a + int (digit_val c)) 0 ds)))"

text \<open>The parsed rule: the locals of \<open>parseRecurrenceRule\<close> before its loop. \<open>count\<close> and
  \<open>until\<close> are \<open>None\<close> for \<open>null\<close>; a number that is \<open>NaN\<close> is \<open>None\<close> one level down.\<close>

record rule =
  freq :: "string option"
  interval :: "int option"
  count :: "int option option"
  until :: "dayjs option"
  byDay :: "string list"
  byMonthDay :: "int option list"
  byMonth :: "int option list"

definition ruleMap_of :: "string \<Rightarrow> string \<Rightarrow> string option" where
  "ruleMap_of rrule =
     foldl (\<lambda>m part.
              (case split_on (CHR ''='') part of
                 key # val # _ \<Rightarrow> if key \<noteq> [] \<and> val \<noteq> [] then m(key \<mapsto> val) else m
               | _ \<Rightarrow> m))
       Map.empty (split_on (CHR '';'') rrule)"

definition parse_rule :: "datelib \<Rightarrow> string \<Rightarrow> rule" where
  "parse_rule L rrule =
     (let ruleMap = ruleMap_of rrule
      in \<lparr>freq = ruleMap ''FREQ'',
          interval = parseInt (case ruleMap ''INTERVAL'' of Some s \<Rightarrow> s | None \<Rightarrow> ''1''),
          count = map_option parseInt (ruleMap ''COUNT''),
          until = map_option (dayjs_str L) (ruleMap ''UNTIL''),
          byDay = (case ruleMap ''BYDAY'' of Some s \<Rightarrow> split_on (CHR '','') s | None \<Rightarrow> []),
          byMonthDay = (case ruleMap ''BYMONTHDAY'' of
                          Some s \<Rightarrow> map parseInt (split_on (CHR '','') s) | None \<Rightarrow> []),
          byMonth = (case ruleMap ''BYMONTH'' of
                       Some s \<Rightarrow> map parseInt (split_on (CHR '','') s) | None \<Rightarrow> [])\<rparr>)"

text \<open>\<open>count || 365\<close> and the truthiness test \<open>count && ...\<close>.\<close>

definition maxOccurrences :: "rule \<Rightarrow> int" where
  "maxOccurrences R = (case count R of Some (Some n) \<Rightarrow> if n \<noteq> 0 then n else 365 | _ \<Rightarrow> 365)"

definition count_reached :: "rule \<Rightarrow> int \<Rightarrow> bool" where
  "count_reached R occurrenceCount =
     (case count R of Some (Some n) \<Rightarrow> n \<noteq> 0 \<and> n \<le> occurrenceCount | _ \<Rightarrow> False)"

definition until_passed :: "rule \<Rightarrow> dayjs \<Rightarrow> bool" where
  "until_passed R current = (case until R of Some u \<Rightarrow> isAfter current u | None \<Rightarrow> False)"

text \<open>
  \<open>getNextWeeklyOccurrence\<close>. Its \<open>dayMap\<close> is an object literal, so a lookup finds, besides the
  seven weekday codes, the names every object inherits (\<open>constructor\<close>, \<open>toString\<close>, ...). What it
  finds there is a function or an object, not \<open>undefined\<close>: such an entry passes the filter, is
  never greater than a day of the week, and is \<open>NaN\<close> as the argument of \<open>day\<close>. The default
  \<open>sort\<close> compares the printed values, and a digit comes before the printed form of a function
  or an object: the day numbers come first, in order.
\<close>

datatype day_entry = DayNum nat | Inherited

definition inherited_names :: "string list" where
  "inherited_names =
     [''constructor'', ''hasOwnProperty'', ''isPrototypeOf'', ''propertyIsEnumerable'',
      ''toLocaleString'', ''toString'', ''valueOf'', ''__proto__'', ''__defineGetter__'',
      ''__defineSetter__'', ''__lookupGetter__'', ''__lookupSetter__'']"

definition dayMap :: "string \<Rightarrow> day_entry option" where
  "dayMap s =
     (if s = ''SU'' then Some (DayNum 0) else if s = ''MO'' then Some (DayNum 1)
      else if s = ''TU'' then Some (DayNum 2) else if s = ''WE'' then Some (DayNum 3)
      else if s = ''TH'' then Some (DayNum 4) else if s = ''FR'' then Some (DayNum 5)
      else if s = ''SA'' then Some (DayNum 6)
      else if s \<in> set inherited_names then Some Inherited else None)"

definition day_numbers :: "day_entry list \<Rightarrow> nat list" where
  "day_numbers es = List.map_filter (\<lambda>e. case e of DayNum n \<Rightarrow> Some n | Inherited \<Rightarrow> None) es"

definition targetDays :: "string list \<Rightarrow> day_entry list" where
  "targetDays days =
     (let es = List.map_filter dayMap days
      in map DayNum (sort (day_numbers es)) @ filter (\<lambda>e. e = Inherited) es)"

fun later :: "day_entry \<Rightarrow> nat \<Rightarrow> bool" where
  "later (DayNum n) currentDay = (currentDay < n)"
| "later Inherited currentDay = False"

fun dj_day_of :: "day_entry \<Rightarrow> dayjs \<Rightarrow> dayjs" where
  "dj_day_of (DayNum n) c = dj_day (int n) c"
| "dj_day_of Inherited c = None"

definition getNextWeeklyOccurrence :: "dayjs \<Rightarrow> int option \<Rightarrow> string list \<Rightarrow> dayjs" where
  "getNextWeeklyOccurrence current iv days =
     (let ts = targetDays days
      in if length ts = 0 then dj_add iv Week current
         else
           (case current of
              None \<Rightarrow> dj_day_of (hd ts) (dj_add iv Week current)
            | Some c \<Rightarrow>
                (case find (\<lambda>day. later day (weekday c)) ts of
                   Some nextDay \<Rightarrow> dj_day_of nextDay current
                 | None \<Rightarrow> dj_day_of (hd ts) (dj_add iv Week current))))"

text \<open>\<open>getNextMonthlyOccurrence\<close>.\<close>

definition min_day :: "int option \<Rightarrow> dayjs \<Rightarrow> int option" where
  "min_day firstDay nextMonth =
     (case (firstDay, nextMonth) of
        (Some f, Some m) \<Rightarrow> Some (min f (int (daysInMonth (yr m) (mo m))))
      | _ \<Rightarrow> None)"

definition getNextMonthlyOccurrence :: "dayjs \<Rightarrow> int option \<Rightarrow> int option list \<Rightarrow> dayjs" where
  "getNextMonthlyOccurrence current iv days =
     (let nextDay = (case current of
                       None \<Rightarrow> None
                     | Some c \<Rightarrow>
                         find (\<lambda>day. case day of Some n \<Rightarrow> int (dy c) < n | None \<Rightarrow> False) days);
          fits = (case (nextDay, current) of
                    (Some (Some n), Some c) \<Rightarrow> n \<le> int (daysInMonth (yr c) (mo c))
                  | _ \<Rightarrow> False)
      in if fits then dj_date (case nextDay of Some n \<Rightarrow> n | None \<Rightarrow> None) current
         else
           (let nextMonth = dj_add iv Month current
            in case days of
                 firstDay # _ \<Rightarrow> dj_date (min_day firstDay nextMonth) nextMonth
               | [] \<Rightarrow> nextMonth))"

text \<open>The \<open>switch\<close> on the frequency. Its \<open>default\<close> branch leaves the \<open>switch\<close> only, so the
  loop goes on with \<open>current\<close> unchanged.\<close>

definition advance :: "rule \<Rightarrow> dayjs \<Rightarrow> dayjs" where
  "advance R current =
     (if freq R = Some ''DAILY'' then dj_add (interval R) Day current
      else if freq R = Some ''WEEKLY'' then
        (if length (byDay R) > 0 then getNextWeeklyOccurrence current (interval R) (byDay R)
         else dj_add (interval R) Week current)
      else if freq R = Some ''MONTHLY'' then
        (if length (byMonthDay R) > 0
         then getNextMonthlyOccurrence current (interval R) (byMonthDay R)
         else dj_add (interval R) Month current)
      else if freq R = Some ''YEARLY'' then dj_add (interval R) Year current
      else current)"

definition in_view :: "dayjs \<Rightarrow> dayjs \<Rightarrow> dayjs \<Rightarrow> bool" where
  "in_view viewStart viewEnd current =
     (isAfter current (dj_add (Some (- 1)) Day viewStart)
      \<and> isBefore current (dj_add (Some 1) Day viewEnd))"

text \<open>\<open>byMonth.includes(current.month() + 1)\<close>; \<open>includes\<close> finds \<open>NaN\<close> in a list that holds
  \<open>NaN\<close>.\<close>

definition month_listed :: "rule \<Rightarrow> dayjs \<Rightarrow> bool" where
  "month_listed R current = (map_option (\<lambda>d. int (mo d)) current \<in> set (byMonth R))"

definition shouldInclude :: "rule \<Rightarrow> dayjs \<Rightarrow> bool" where
  "shouldInclude R current = (\<not> (length (byMonth R) > 0 \<and> \<not> month_listed R current))"

text \<open>The \<open>while\<close> loop; each round adds one to \<open>occurrenceCount\<close>.\<close>

function expand_loop :: "rule \<Rightarrow> dayjs \<Rightarrow> dayjs \<Rightarrow> dayjs \<Rightarrow> int \<Rightarrow> dayjs list \<Rightarrow> dayjs list" where
  "expand_loop R viewStart viewEnd current occurrenceCount occurrences =
     (if occurrenceCount < maxOccurrences R \<and> isBefore current (dj_add (Some 1) Year viewEnd)
      then
        if until_passed R current then occurrences
        else if count_reached R occurrenceCount then occurrences
        else
          (let current' = advance R current
           in expand_loop R viewStart viewEnd current' (occurrenceCount + 1)
                (if shouldInclude R current' \<and> in_view viewStart viewEnd current'
                 then occurrences @ [current'] else occurrences))
      else occurrences)"
  by pat_completeness auto
termination
  by (relation "measure (\<lambda>(R, viewStart, viewEnd, current, n, occurrences). nat (maxOccurrences R - n))")
    auto

definition parseRecurrenceRule :: "datelib \<Rightarrow> string \<Rightarrow> dayjs \<Rightarrow> dayjs \<Rightarrow> dayjs \<Rightarrow> dayjs list" where
  "parseRecurrenceRule L rrule startDate viewStart viewEnd =
     (let R = parse_rule L rrule;
          occurrences = (if in_view viewStart viewEnd startDate then [startDate] else [])
      in expand_loop R viewStart viewEnd startDate 1 occurrences)"

text \<open>A well-formed value: an existing calendar date and a time of day.\<close>

definition valid_dt :: "dt \<Rightarrow> bool" where
  "valid_dt d =
     (1 \<le> mo d \<and> mo d \<le> 12 \<and> 1 \<le> dy d \<and> dy d \<le> daysInMonth (yr d) (mo d)
      \<and> hr d < 24 \<and> mi d < 60 \<and> sc d < 60 \<and> ms d < 1000)"

definition valid_dayjs :: "dayjs \<Rightarrow> bool" where
  "valid_dayjs c = (case c of None \<Rightarrow> True | Some d \<Rightarrow> valid_dt d)"

text \<open>The midnight of a calendar date, for writing down anchors and views.\<close>

definition ymd :: "int \<Rightarrow> nat \<Rightarrow> nat \<Rightarrow> dayjs" where
  "ymd y m d = Some \<lparr>yr = y, mo = m, dy = d, hr = 0, mi = 0, sc = 0, ms = 0\<rparr>"

text \<open>The dates the loop appends to the anchor: the result of \<open>parseRecurrenceRule\<close> without
  its first entry when the anchor lies in the view.\<close>

definition generated :: "datelib \<Rightarrow> string \<Rightarrow> dayjs \<Rightarrow> dayjs \<Rightarrow> dayjs \<Rightarrow> dayjs list" where
  "generated L rrule startDate viewStart viewEnd =
     drop (if in_view viewStart viewEnd startDate then 1 else 0)
       (parseRecurrenceRule L rrule startDate viewStart viewEnd)"

section \<open>Errors of the remote client and of the engine\<close>

datatype GoogleCalendarErrorType =
    AUTHENTICATION_FAILED
  | AUTHORIZATION_REQUIRED
  | TOKEN_REFRESH_FAILED
  | API_QUOTA_EXCEEDED
  | NETWORK_ERROR
  | INVALID_CONFIGURATION
  | SYNC_IN_PROGRESS
  | CALENDAR_NOT_FOUND
  | EVENT_NOT_FOUND
  | VALIDATION_ERROR
  | UNKNOWN_ERROR

record GoogleCalendarError =
  g_type :: GoogleCalendarErrorType
  g_message :: string

text \<open>
  A value thrown by a collaborator (the remote service, the OAuth client, the record store):
  the properties the client inspects. \<open>t_type\<close> is set when the value is itself a
  \<open>GoogleCalendarError\<close>.
\<close>

datatype code = CodeNum int | CodeStr string

record thrown =
  t_type :: "GoogleCalendarErrorType option"
  t_code :: "code option"
  t_status :: "int option"
  t_response_status :: "int option"
  t_message :: string

definition fromError :: "thrown \<Rightarrow> GoogleCalendarError" where
  "fromError error =
     (case t_type error of
        Some ty \<Rightarrow> \<lparr>g_type = ty, g_message = t_message error\<rparr>
      | None \<Rightarrow> \<lparr>g_type = UNKNOWN_ERROR, g_message = t_message error\<rparr>)"

text \<open>\<open>includes\<close> and \<open>toLowerCase\<close> on the message of an error.\<close>

fun str_includes :: "string \<Rightarrow> string \<Rightarrow> bool" where
  "str_includes [] p = (p = [])"
| "str_includes (c # s) p = (take (length p) (c # s) = p \<or> str_includes s p)"

definition lower :: "char \<Rightarrow> char" where
  "lower c = (let n = (of_char c :: nat) in if 65 \<le> n \<and> n \<le> 90 then char_of (n + 32) else c)"

definition toLowerCase :: "string \<Rightarrow> string" where
  "toLowerCase s = map lower s"

definition isAuthenticationError :: "thrown \<Rightarrow> bool" where
  "isAuthenticationError error =
     (t_code error = Some (CodeNum 401) \<or> t_status error = Some 401
      \<or> t_response_status error = Some 401
      \<or> (t_message error \<noteq> [] \<and> str_includes (t_message error) ''401''))"

definition isQuotaExceededError :: "thrown \<Rightarrow> bool" where
  "isQuotaExceededError error =
     (t_code error = Some (CodeNum 403) \<or> t_status error = Some 403
      \<or> (t_message error \<noteq> [] \<and> str_includes (toLowerCase (t_message error)) ''quota''))"

definition isNetworkError :: "thrown \<Rightarrow> bool" where
  "isNetworkError error =
     (t_code error = Some (CodeStr ''ENOTFOUND'') \<or> t_code error = Some (CodeStr ''ECONNREFUSED'')
      \<or> t_code error = Some (CodeStr ''ETIMEDOUT'')
      \<or> (t_message error \<noteq> [] \<and> str_includes (toLowerCase (t_message error)) ''network''))"

section \<open>Remote client: the retry wrapper\<close>

text \<open>
  The client works on an outside world \<open>'w\<close>: a call of a collaborator takes the world and
  returns its outcome with the world after it. The OAuth client and the registered callback are
  the fields of the client; the call to wrap is an argument. The wrapper runs on the world
  together with the log of the calls made so far: \<open>logged\<close> makes one call and notes it.
\<close>

record 'w GoogleCalendarAPI =
  oauth_refreshAccessToken :: "'w \<Rightarrow> (thrown + string) \<times> 'w"
  oauth_setCredentials :: "string \<Rightarrow> 'w \<Rightarrow> 'w"
  onTokenRefresh :: "(string \<Rightarrow> 'w \<Rightarrow> (thrown + unit) \<times> 'w) option"

datatype step = ApiCall | TokenRefresh | TokenCallback string

definition logged :: "step \<Rightarrow> ('w \<Rightarrow> 'r \<times> 'w) \<Rightarrow> 'w \<times> step list \<Rightarrow> 'r \<times> 'w \<times> step list" where
  "logged x f s = (case f (fst s) of (r, w') \<Rightarrow> (r, w', snd s @ [x]))"

definition refreshAccessToken :: "'w GoogleCalendarAPI \<Rightarrow> 'w \<Rightarrow> (thrown + string) \<times> 'w" where
  "refreshAccessToken api w =
     (case oauth_refreshAccessToken api w of
        (Inl err, w1) \<Rightarrow> (Inl err, w1)
      | (Inr access_token, w1) \<Rightarrow> (Inr access_token, oauth_setCredentials api access_token w1))"

definition refresh_failed :: GoogleCalendarError where
  "refresh_failed =
     \<lparr>g_type = TOKEN_REFRESH_FAILED,
      g_message = ''Authentication failed. Please re-authenticate with Google Calendar.''\<rparr>"

text \<open>\<open>executeWithRetry\<close>. The refresh, the callback and the second call are in one \<open>try\<close>
  block: whatever fails there is caught and replaced by \<open>refresh_failed\<close>.\<close>

definition executeWithRetry ::
    "'w GoogleCalendarAPI \<Rightarrow> ('w \<Rightarrow> (thrown + 'a) \<times> 'w) \<Rightarrow> 'w \<times> step list
      \<Rightarrow> (GoogleCalendarError + 'a) \<times> 'w \<times> step list" where
  "executeWithRetry api apiCall s =
     (case logged ApiCall apiCall s of
        (Inr v, s1) \<Rightarrow> (Inr v, s1)
      | (Inl error, s1) \<Rightarrow>
          if isAuthenticationError error then
            (case logged TokenRefresh (refreshAccessToken api) s1 of
               (Inl refreshError, s2) \<Rightarrow> (Inl refresh_failed, s2)
             | (Inr newAccessToken, s2) \<Rightarrow>
                 (case (case onTokenRefresh api of
                          None \<Rightarrow> (Inr (), s2)
                        | Some callback \<Rightarrow>
                            logged (TokenCallback newAccessToken) (callback newAccessToken) s2) of
                    (Inl refreshError, s3) \<Rightarrow> (Inl refresh_failed, s3)
                  | (Inr u, s3) \<Rightarrow>
                      (case logged ApiCall apiCall s3 of
                         (Inr v, s4) \<Rightarrow> (Inr v, s4)
                       | (Inl refreshError, s4) \<Rightarrow> (Inl refresh_failed, s4))))
          else if isQuotaExceededError error then
            (Inl \<lparr>g_type = API_QUOTA_EXCEEDED,
                  g_message = ''Google Calendar API quota exceeded. Please try again later.''\<rparr>,
             s1)
          else if isNetworkError error then
            (Inl \<lparr>g_type = NETWORK_ERROR,
                  g_message = ''Network error occurred. Please check your internet connection.''\<rparr>,
             s1)
          else (Inl (fromError error), s1))"

text \<open>How often a step occurs among the steps taken.\<close>

definition count_step :: "step \<Rightarrow> step list \<Rightarrow> nat" where
  "count_step x xs = length (filter (\<lambda>y. y = x) xs)"

section \<open>Sync engine\<close>

text \<open>
  The engine works against two collaborators, the \<open>api\<close> object (the remote client) and the
  \<open>dataApi\<close> (the record store), and reads the clock. They are the fields of an environment
  over the outside world \<open>'w\<close>; each call returns its outcome, \<open>Inl\<close> for a thrown value, and
  the world after it.
\<close>

record 'w env =
  api_getEvents :: "string \<Rightarrow> string \<Rightarrow> string \<Rightarrow> 'w \<Rightarrow> (thrown + GoogleCalendarEvent list) \<times> 'w"
  api_updateEvent :: "string \<Rightarrow> datavalue \<Rightarrow> PartialEvent \<Rightarrow> 'w \<Rightarrow> (thrown + GoogleCalendarEvent) \<times> 'w"
  api_createEvent :: "string \<Rightarrow> PartialEvent \<Rightarrow> 'w \<Rightarrow> (thrown + GoogleCalendarEvent) \<times> 'w"
  api_deleteEvent :: "datavalue \<Rightarrow> datavalue \<Rightarrow> 'w \<Rightarrow> (thrown + unit) \<times> 'w"
  dataApi_createNote :: "DataRecord \<Rightarrow> string \<Rightarrow> 'w \<Rightarrow> (thrown + unit) \<times> 'w"
  dataApi_updateRecord :: "DataRecord \<Rightarrow> 'w \<Rightarrow> (thrown + unit) \<times> 'w"
  view_deleteRecord :: "string \<Rightarrow> 'w \<Rightarrow> (thrown + unit) \<times> 'w"
  clock :: "'w \<Rightarrow> dt"

text \<open>
  The fields of the engine object, and what it did to the outside, in order. The engine gives
  up control only at an \<open>await\<close>, so that is when another caller can get at it. Where it awaits
  a collaborator, \<open>awaits\<close> notes whether \<open>syncInProgress\<close> was set during the wait; where it
  awaits one of its own methods it resumes in the state that method left.
\<close>

record CalendarEventMapping =
  noteId :: string
  googleEventId :: datavalue
  mappedCalendarId :: string
  lastSynced :: dt
  syncDirection :: string

record SyncConflict =
  conflictNoteId :: string
  conflictEventId :: string

record engine =
  syncInProgress :: bool
  eventMappings :: "(string \<times> CalendarEventMapping) list"
  conflicts :: "SyncConflict list"
  config_lastSync :: "string option"

datatype action =
    GetEvents string string string
  | UpdateEvent string datavalue PartialEvent
  | CreateEvent string PartialEvent
  | DeleteEvent datavalue datavalue
  | CreateNote DataRecord string
  | UpdateRecord DataRecord
  | DeleteRecord string
  | Notice string

record 'w st =
  eng :: engine
  world :: 'w
  trace :: "action list"
  awaits :: "bool list"

definition perform :: "action \<Rightarrow> ('w \<Rightarrow> ('e + 'a) \<times> 'w) \<Rightarrow> 'w st \<Rightarrow> ('e + 'a) \<times> 'w st" where
  "perform a f s =
     (case f (world s) of
        (r, w') \<Rightarrow>
          (r, s\<lparr>world := w', trace := trace s @ [a],
                awaits := awaits s @ [syncInProgress (eng s)]\<rparr>))"

definition notice :: "string \<Rightarrow> 'w st \<Rightarrow> 'w st" where
  "notice m s = s\<lparr>trace := trace s @ [Notice m]\<rparr>"

text \<open>\<open>Map.set\<close> and \<open>Map.delete\<close> on a map kept in insertion order.\<close>

fun map_set :: "'k \<Rightarrow> 'v \<Rightarrow> ('k \<times> 'v) list \<Rightarrow> ('k \<times> 'v) list" where
  "map_set k v [] = [(k, v)]"
| "map_set k v ((k', v') # m) = (if k' = k then (k, v) # m else (k', v') # map_set k v m)"

definition map_delete :: "'k \<Rightarrow> ('k \<times> 'v) list \<Rightarrow> ('k \<times> 'v) list" where
  "map_delete k m = filter (\<lambda>p. fst p \<noteq> k) m"

definition createEventMapping :: "string \<Rightarrow> datavalue \<Rightarrow> string \<Rightarrow> string \<Rightarrow> dt \<Rightarrow> CalendarEventMapping" where
  "createEventMapping n g c direction now =
     \<lparr>noteId = n, googleEventId = g, mappedCalendarId = c, lastSynced = now,
      syncDirection = direction\<rparr>"

definition track :: "string \<Rightarrow> datavalue \<Rightarrow> string \<Rightarrow> string \<Rightarrow> 'w env \<Rightarrow> 'w st \<Rightarrow> 'w st" where
  "track n g c direction E s =
     s\<lparr>eng := (eng s)\<lparr>eventMappings :=
          map_set n (createEventMapping n g c direction (clock E (world s)))
            (eventMappings (eng s))\<rparr>\<rparr>"

text \<open>What a step of a pass can fail with: an error of the mapper, a value thrown by a
  collaborator, or an error the engine raises itself.\<close>

datatype failure = MapperError jserror | Thrown thrown | EngineError GoogleCalendarError

definition updateRecordSyncMetadata ::
    "'w env \<Rightarrow> DataRecord \<Rightarrow> datavalue \<Rightarrow> string \<Rightarrow> 'w st \<Rightarrow> (thrown + unit) \<times> 'w st" where
  "updateRecordSyncMetadata E record' eventId' calendarId' s =
     (let updatedRecord = record'\<lparr>vals := spread (vals record')
            [(''google-event-id'', eventId'),
             (''google-calendar-id'', VStr calendarId'),
             (''google-calendar-sync'', VBool True),
             (''google-calendar-last-sync'', VStr (toISOString (clock E (world s))))]\<rparr>
      in perform (UpdateRecord updatedRecord) (dataApi_updateRecord E updatedRecord) s)"

subsection \<open>Local to remote\<close>

text \<open>The body of the loop of \<open>syncObsidianToGoogle\<close> for one record that should sync: the
  outcome is the increment of \<open>syncCount\<close>, or what the \<open>catch\<close> of the loop swallowed.\<close>

definition sync_record :: "'w env \<Rightarrow> datelib \<Rightarrow> string \<Rightarrow> DataRecord \<Rightarrow> 'w st \<Rightarrow> (failure + nat) \<times> 'w st" where
  "sync_record E L calendarId' record' s =
     (let metadata = extractGoogleCalendarMetadata record'
      in case (if truthy (eventId metadata) then eventId metadata else None) of
           Some eventId' \<Rightarrow>
             if isRecordModified record' then
               (case mapRecordToGoogleEvent L record' of
                  Inl err \<Rightarrow> (Inl (MapperError err), s)
                | Inr updatedEvent \<Rightarrow>
                    (case perform (UpdateEvent calendarId' eventId' updatedEvent)
                            (api_updateEvent E calendarId' eventId' updatedEvent) s of
                       (Inl err, s1) \<Rightarrow> (Inl (Thrown err), s1)
                     | (Inr done, s1) \<Rightarrow>
                         (case updateRecordSyncMetadata E record' eventId' calendarId' s1 of
                            (Inl err, s2) \<Rightarrow> (Inl (Thrown err), s2)
                          | (Inr u, s2) \<Rightarrow> (Inr 1, s2))))
             else (Inr 0, s)
         | None \<Rightarrow>
             (case mapRecordToGoogleEvent L record' of
                Inl err \<Rightarrow> (Inl (MapperError err), s)
              | Inr newEvent \<Rightarrow>
                  (case perform (CreateEvent calendarId' newEvent)
                          (api_createEvent E calendarId' newEvent) s of
                     (Inl err, s1) \<Rightarrow> (Inl (Thrown err), s1)
                   | (Inr createdEvent, s1) \<Rightarrow>
                       (case updateRecordSyncMetadata E record' (VStr (e_id createdEvent))
                               calendarId' s1 of
                          (Inl err, s2) \<Rightarrow> (Inl (Thrown err), s2)
                        | (Inr u, s2) \<Rightarrow>
                            (Inr 1, track (rid record') (VStr (e_id createdEvent)) calendarId'
                                      ''obsidian-to-google'' E s2)))))"

fun syncObsidianToGoogle :: "'w env \<Rightarrow> datelib \<Rightarrow> string \<Rightarrow> DataRecord list \<Rightarrow> 'w st \<Rightarrow> nat \<times> 'w st" where
  "syncObsidianToGoogle E L calendarId' [] s = (0, s)"
| "syncObsidianToGoogle E L calendarId' (record' # records) s =
     (if \<not> shouldSyncToGoogle record' then syncObsidianToGoogle E L calendarId' records s
      else
        (case sync_record E L calendarId' record' s of
           (r, s1) \<Rightarrow>
             (case syncObsidianToGoogle E L calendarId' records s1 of
                (n, s2) \<Rightarrow> ((case r of Inr k \<Rightarrow> k | Inl err \<Rightarrow> 0) + n, s2))))"

subsection \<open>Remote to local\<close>

definition trim :: "string \<Rightarrow> string" where
  "trim s = rev (dropWhile is_space (rev (dropWhile is_space s)))"

text \<open>\<open>replace(/[\\/:*?"<>|]/g, '-')\<close>, by character codes.\<close>

definition sanitize_char :: "char \<Rightarrow> char" where
  "sanitize_char c =
     (if (of_char c :: nat) \<in> {92, 47, 58, 42, 63, 34, 60, 62, 124} then CHR ''-'' else c)"

definition sanitize :: "string \<Rightarrow> string" where
  "sanitize s = map sanitize_char s"

definition baseId_of :: "GoogleCalendarEvent \<Rightarrow> string" where
  "baseId_of event =
     (case e_recurringEventId event of
        Some i \<Rightarrow> if i \<noteq> [] then i else e_id event
      | None \<Rightarrow> e_id event)"

definition eventsByBaseId :: "GoogleCalendarEvent list \<Rightarrow> (string \<times> GoogleCalendarEvent) list" where
  "eventsByBaseId googleEvents =
     foldl (\<lambda>m event.
              (case map_of m (baseId_of event) of
                 None \<Rightarrow> map_set (baseId_of event) event m
               | Some existing \<Rightarrow>
                   if e_recurrence event \<noteq> None \<and> e_recurrence existing = None
                   then map_set (baseId_of event) event m else m))
       [] googleEvents"

text \<open>\<open>recordsByEventId.get(baseEventId)\<close>: the last record that stores this id.\<close>

definition recordsByEventId_get :: "DataRecord list \<Rightarrow> string \<Rightarrow> DataRecord option" where
  "recordsByEventId_get existingRecords baseEventId =
     find (\<lambda>r. baseEventId \<noteq> [] \<and> field (vals r) ''google-event-id'' = Some (VStr baseEventId))
       (rev existingRecords)"

definition dayjs_opt :: "'w env \<Rightarrow> datelib \<Rightarrow> string option \<Rightarrow> 'w st \<Rightarrow> dayjs" where
  "dayjs_opt E L v s = (case v of None \<Rightarrow> Some (clock E (world s)) | Some t \<Rightarrow> dayjs_str L t)"

definition eventDate_of :: "'w env \<Rightarrow> datelib \<Rightarrow> GoogleCalendarEvent \<Rightarrow> 'w st \<Rightarrow> string" where
  "eventDate_of E L googleEvent s =
     format_dayjs (dayjs_opt E L (str_or (dateTime (e_start googleEvent)) (date (e_start googleEvent))) s)"

definition validation_error :: "string \<Rightarrow> failure" where
  "validation_error m = EngineError \<lparr>g_type = VALIDATION_ERROR, g_message = m\<rparr>"

definition createNoteFromGoogleEvent ::
    "'w env \<Rightarrow> datelib \<Rightarrow> GoogleCalendarEvent \<Rightarrow> string \<Rightarrow> 'w st \<Rightarrow> (failure + unit) \<times> 'w st" where
  "createNoteFromGoogleEvent E L googleEvent calendarId' s =
     (if e_id googleEvent = [] then
        (Inl (validation_error ''Invalid Google Calendar event: missing ID''), s)
      else if trim calendarId' = [] then
        (Inl (validation_error ''Calendar ID is required for note creation''), s)
      else
        (case mapGoogleEventToFrontmatter L (clock E (world s)) googleEvent of
           Inl err \<Rightarrow> (Inl (MapperError err), s)
         | Inr frontmatter0 \<Rightarrow>
             (let frontmatter = set_field ''google-calendar-id'' (VStr calendarId') frontmatter0;
                  noteTitle = (case e_summary googleEvent of
                                 Some t \<Rightarrow> if trim t \<noteq> [] then trim t else ''Untitled Event''
                               | None \<Rightarrow> ''Untitled Event'');
                  sanitizedTitle = sanitize noteTitle;
                  finalTitle = (if sanitizedTitle \<noteq> [] then sanitizedTitle else ''Untitled Event'');
                  noteName =
                    (if (case e_recurrence googleEvent of Some r \<Rightarrow> length r > 0 | None \<Rightarrow> False)
                     then finalTitle @ '' - recurring-'' @ take 8 (baseId_of googleEvent)
                     else finalTitle @ '' - '' @ eventDate_of E L googleEvent s @ '' - ''
                            @ take 8 (e_id googleEvent));
                  record' = \<lparr>rid = noteName @ ''.md'', vals = frontmatter\<rparr>;
                  templatePath = ''Templates/Calendar/Event-Note.md''
              in case perform (CreateNote record' templatePath)
                        (dataApi_createNote E record' templatePath) s of
                   (Inl err, s1) \<Rightarrow>
                     (Inl (EngineError
                        \<lparr>g_type = UNKNOWN_ERROR,
                         g_message = ''Failed to create note for Google Calendar event: ''
                                       @ t_message err\<rparr>), s1)
                 | (Inr u, s1) \<Rightarrow>
                     (Inr (), track (rid record') (VStr (e_id googleEvent)) calendarId'
                                ''google-to-obsidian'' E s1))))"

definition updateNoteFromGoogleEvent ::
    "'w env \<Rightarrow> datelib \<Rightarrow> DataRecord \<Rightarrow> GoogleCalendarEvent \<Rightarrow> string \<Rightarrow> 'w st
      \<Rightarrow> (failure + unit) \<times> 'w st" where
  "updateNoteFromGoogleEvent E L record' googleEvent calendarId' s =
     (case mapGoogleEventToFrontmatter L (clock E (world s)) googleEvent of
        Inl err \<Rightarrow> (Inl (MapperError err), s)
      | Inr frontmatter0 \<Rightarrow>
          (let updatedFrontmatter = set_field ''google-calendar-id'' (VStr calendarId') frontmatter0;
               updatedRecord = record'\<lparr>vals := spread (vals record') updatedFrontmatter\<rparr>
           in case perform (UpdateRecord updatedRecord) (dataApi_updateRecord E updatedRecord) s of
                (Inl err, s1) \<Rightarrow> (Inl (Thrown err), s1)
              | (Inr u, s1) \<Rightarrow> (Inr (), s1)))"

text \<open>The name the duplicate guard of \<open>syncGoogleToObsidian\<close> looks for among the records.\<close>

definition guard_name :: "'w env \<Rightarrow> datelib \<Rightarrow> GoogleCalendarEvent \<Rightarrow> 'w st \<Rightarrow> string" where
  "guard_name E L googleEvent s =
     (let noteTitle = (case e_summary googleEvent of
                         Some t \<Rightarrow> if t \<noteq> [] then t else ''Untitled Event''
                       | None \<Rightarrow> ''Untitled Event'');
          sanitizedTitle = sanitize noteTitle;
          eventDate = eventDate_of E L googleEvent s;
          eventIdShort = take 8 (e_id googleEvent)
      in sanitizedTitle @ '' - '' @ eventDate @ '' - '' @ eventIdShort @ ''.md'')"

text \<open>The body of the loop of \<open>syncGoogleToObsidian\<close> for one grouped event.\<close>

definition sync_event ::
    "'w env \<Rightarrow> datelib \<Rightarrow> string \<Rightarrow> DataRecord list \<Rightarrow> string \<times> GoogleCalendarEvent \<Rightarrow> 'w st
      \<Rightarrow> (failure + nat) \<times> 'w st" where
  "sync_event E L calendarId' existingRecords entry s =
     (case entry of (baseEventId, googleEvent) \<Rightarrow>
        (case recordsByEventId_get existingRecords baseEventId of
           Some existingRecord \<Rightarrow>
             (let lastSync' = field (vals existingRecord) ''google-calendar-last-sync'';
                  googleModified = dayjs_opt E L (e_updated googleEvent) s;
                  lastSyncTime = (case (if truthy lastSync' then lastSync' else None) of
                                    Some v \<Rightarrow> dayjs_of L v | None \<Rightarrow> Some epoch)
              in if isAfter googleModified lastSyncTime then
                   (case updateNoteFromGoogleEvent E L existingRecord googleEvent calendarId' s of
                      (Inl err, s1) \<Rightarrow> (Inl err, s1)
                    | (Inr u, s1) \<Rightarrow> (Inr 1, s1))
                 else (Inr 0, s))
         | None \<Rightarrow>
             if guard_name E L googleEvent s \<notin> set (map rid existingRecords) then
               (case createNoteFromGoogleEvent E L googleEvent calendarId' s of
                  (Inl err, s1) \<Rightarrow> (Inl err, s1)
                | (Inr u, s1) \<Rightarrow> (Inr 1, s1))
             else (Inr 0, s)))"

fun sync_events ::
    "'w env \<Rightarrow> datelib \<Rightarrow> string \<Rightarrow> DataRecord list \<Rightarrow> (string \<times> GoogleCalendarEvent) list
      \<Rightarrow> 'w st \<Rightarrow> nat \<times> 'w st" where
  "sync_events E L calendarId' existingRecords [] s = (0, s)"
| "sync_events E L calendarId' existingRecords (entry # entries) s =
     (case sync_event E L calendarId' existingRecords entry s of
        (r, s1) \<Rightarrow>
          (case sync_events E L calendarId' existingRecords entries s1 of
             (n, s2) \<Rightarrow> ((case r of Inr k \<Rightarrow> k | Inl err \<Rightarrow> 0) + n, s2)))"

definition syncGoogleToObsidian ::
    "'w env \<Rightarrow> datelib \<Rightarrow> string \<Rightarrow> GoogleCalendarEvent list \<Rightarrow> DataRecord list \<Rightarrow> 'w st
      \<Rightarrow> nat \<times> 'w st" where
  "syncGoogleToObsidian E L calendarId' googleEvents existingRecords s =
     sync_events E L calendarId' existingRecords (eventsByBaseId googleEvents) s"

subsection \<open>A full pass\<close>

record SyncResult =
  obsidianToGoogle :: nat
  googleToObsidian :: nat
  resultConflicts :: "SyncConflict list"

record SyncStatus =
  isActive :: bool
  statusLastSync :: "string option"
  pendingChanges :: nat

definition getSyncStatus :: "'w st \<Rightarrow> SyncStatus" where
  "getSyncStatus s =
     \<lparr>isActive = syncInProgress (eng s), statusLastSync = config_lastSync (eng s),
      pendingChanges = length (conflicts (eng s))\<rparr>"

definition sync_in_progress :: GoogleCalendarError where
  "sync_in_progress = \<lparr>g_type = SYNC_IN_PROGRESS, g_message = ''Sync already in progress''\<rparr>"

text \<open>The \<open>try\<close> block of \<open>performSync\<close>. Only fetching the remote events can fail it: both
  passes swallow the failures of their steps. The clock is taken to read a time from which the
  default window, one month back and three months ahead, lies within the range of \<open>Date\<close>.\<close>

definition sync_body ::
    "'w env \<Rightarrow> datelib \<Rightarrow> string \<Rightarrow> DataRecord list \<Rightarrow> (string \<times> string) option \<Rightarrow> 'w st
      \<Rightarrow> (thrown + SyncResult) \<times> 'w st" where
  "sync_body E L calendarId' records dateRange s0 =
     (let s1 = notice ''Starting Google Calendar sync...'' s0;
          s2 = s1\<lparr>eng := (eng s1)\<lparr>conflicts := []\<rparr>\<rparr>;
          now = clock E (world s2);
          timeMin = (case dateRange of
                       Some (a, b) \<Rightarrow> if a \<noteq> [] then a else toISOString (add_months (- 1) now)
                     | None \<Rightarrow> toISOString (add_months (- 1) now));
          timeMax = (case dateRange of
                       Some (a, b) \<Rightarrow> if b \<noteq> [] then b else toISOString (add_months 3 now)
                     | None \<Rightarrow> toISOString (add_months 3 now))
      in case perform (GetEvents calendarId' timeMin timeMax)
                (api_getEvents E calendarId' timeMin timeMax) s2 of
           (Inl err, s3) \<Rightarrow> (Inl err, s3)
         | (Inr googleEvents, s3) \<Rightarrow>
             (let calendarRecords = filter isCalendarEvent records
              in case syncObsidianToGoogle E L calendarId' calendarRecords s3 of
                   (obsidianToGoogleCount, s4) \<Rightarrow>
                     (case syncGoogleToObsidian E L calendarId' googleEvents calendarRecords s4 of
                        (googleToObsidianCount, s5) \<Rightarrow>
                          (let s6 = s5\<lparr>eng := (eng s5)\<lparr>config_lastSync :=
                                          Some (toISOString (clock E (world s5)))\<rparr>\<rparr>;
                               s7 = notice (''Sync completed: '' @ digits obsidianToGoogleCount
                                             @ '' events to Google, ''
                                             @ digits googleToObsidianCount @ '' from Google'') s6
                           in (Inr \<lparr>obsidianToGoogle = obsidianToGoogleCount,
                                     googleToObsidian = googleToObsidianCount,
                                     resultConflicts = conflicts (eng s7)\<rparr>, s7)))))"

text \<open>
  \<open>performSync\<close>. The calendar id may be missing (\<open>None\<close>); the record set is \<open>None\<close> when
  there is no data frame or its \<open>records\<close> is not an array. The three checks come before the
  \<open>try\<close>; the \<open>finally\<close> clears the flag after the \<open>try\<close> block, however it ended.
\<close>

definition performSync ::
    "'w env \<Rightarrow> datelib \<Rightarrow> string option \<Rightarrow> DataRecord list option \<Rightarrow> (string \<times> string) option
      \<Rightarrow> 'w st \<Rightarrow> (GoogleCalendarError + SyncResult) \<times> 'w st" where
  "performSync E L calendarId' dataFrame dateRange s =
     (case (case calendarId' of Some c \<Rightarrow> if trim c \<noteq> [] then Some c else None | None \<Rightarrow> None) of
        None \<Rightarrow>
          (Inl \<lparr>g_type = INVALID_CONFIGURATION, g_message = ''Calendar ID is required for sync''\<rparr>, s)
      | Some c \<Rightarrow>
          (case dataFrame of
             None \<Rightarrow>
               (Inl \<lparr>g_type = VALIDATION_ERROR,
                     g_message = ''Invalid data frame provided for sync''\<rparr>, s)
           | Some records \<Rightarrow>
               if syncInProgress (eng s) then (Inl sync_in_progress, s)
               else
                 (case sync_body E L c records dateRange
                         (s\<lparr>eng := (eng s)\<lparr>syncInProgress := True\<rparr>\<rparr>) of
                    (Inl err, s1) \<Rightarrow>
                      (let calendarError = fromError err;
                           s2 = notice (''Sync failed: '' @ g_message calendarError) s1
                       in (Inl calendarError, s2\<lparr>eng := (eng s2)\<lparr>syncInProgress := False\<rparr>\<rparr>))
                  | (Inr r, s1) \<Rightarrow> (Inr r, s1\<lparr>eng := (eng s1)\<lparr>syncInProgress := False\<rparr>\<rparr>))))"

section \<open>Sync manager and the deletion hook of the calendar view\<close>

definition deleteGoogleEvent :: "'w env \<Rightarrow> DataRecord \<Rightarrow> 'w st \<Rightarrow> (thrown + unit) \<times> 'w st" where
  "deleteGoogleEvent E record' s =
     (let metadata = extractGoogleCalendarMetadata record'
      in case (if truthy (eventId metadata) \<and> truthy (calendarId metadata)
               then (eventId metadata, calendarId metadata) else (None, None)) of
           (Some eventId', Some calendarId') \<Rightarrow>
             (case perform (DeleteEvent calendarId' eventId')
                     (api_deleteEvent E calendarId' eventId') s of
                (Inl err, s1) \<Rightarrow> (Inl err, s1)
              | (Inr u, s1) \<Rightarrow>
                  (Inr (), s1\<lparr>eng := (eng s1)\<lparr>eventMappings :=
                                 map_delete (rid record') (eventMappings (eng s1))\<rparr>\<rparr>))
         | _ \<Rightarrow> (Inr (), s))"

text \<open>\<open>onRecordDelete\<close> of the manager; \<open>hasEngine\<close> says whether the manager holds a sync
  engine.\<close>

definition onRecordDelete :: "'w env \<Rightarrow> bool \<Rightarrow> DataRecord \<Rightarrow> 'w st \<Rightarrow> (GoogleCalendarError + unit) \<times> 'w st" where
  "onRecordDelete E hasEngine record' s =
     (if \<not> hasEngine \<or> \<not> isCalendarEvent record' then (Inr (), s)
      else
        (case deleteGoogleEvent E record' s of
           (Inr u, s1) \<Rightarrow> (Inr (), notice ''Calendar event deleted successfully'' s1)
         | (Inl err, s1) \<Rightarrow>
             (let calendarError = fromError err
              in (Inl calendarError,
                  notice (''Failed to delete calendar event: '' @ g_message calendarError) s1))))"

text \<open>\<open>handleRecordDelete\<close> of the view; \<open>syncManager\<close> is \<open>None\<close> when the view has no
  manager, else whether the manager holds an engine.\<close>

definition handleRecordDelete :: "'w env \<Rightarrow> bool option \<Rightarrow> DataRecord \<Rightarrow> bool \<Rightarrow> 'w st \<Rightarrow> 'w st" where
  "handleRecordDelete E syncManager record' isVirtual s =
     (case (case syncManager of
              Some hasEngine \<Rightarrow> onRecordDelete E hasEngine record' s
            | None \<Rightarrow> (Inr (), s)) of
        (Inl err, s1) \<Rightarrow> notice ''Failed to delete record. Please try again.'' s1
      | (Inr u, s1) \<Rightarrow>
          if \<not> isVirtual then
            (case perform (DeleteRecord (rid record')) (view_deleteRecord E (rid record')) s1 of
               (Inl err, s2) \<Rightarrow> notice ''Failed to delete record. Please try again.'' s2
             | (Inr u', s2) \<Rightarrow> s2)
          else s1)"

section \<open>Concrete inputs and collaborators for evaluation\<close>

text \<open>Three remote events: an all-day one, a timed one, and a timed one that runs from
  midnight to midnight. The clock reading used with them.\<close>

definition clock0 :: dt where
  "clock0 = \<lparr>yr = 2024, mo = 1, dy = 5, hr = 12, mi = 0, sc = 0, ms = 0\<rparr>"












text \<open>
  A small world for evaluation: a number that counts the calls each collaborator has answered,
  the remote service in the units, the OAuth client's refresh in the tens, its \<open>setCredentials\<close>
  in the hundreds and the callback in the thousands. The service answers 401 to its first \<open>k\<close>
  calls and the value 7 afterwards; the OAuth client hands out the token \<open>tok\<close> or fails.
\<close>

definition unauthorized :: thrown where
  "unauthorized =
     \<lparr>t_type = None, t_code = Some (CodeNum 401), t_status = None, t_response_status = None,
      t_message = ''Invalid Credentials''\<rparr>"

definition invalid_grant :: thrown where
  "invalid_grant =
     \<lparr>t_type = None, t_code = Some (CodeNum 400), t_status = None, t_response_status = None,
      t_message = ''invalid_grant''\<rparr>"

definition flaky_call :: "nat \<Rightarrow> nat \<Rightarrow> (thrown + nat) \<times> nat" where
  "flaky_call k w = (if w mod 10 < k then (Inl unauthorized, w + 1) else (Inr 7, w + 1))"

definition granting_api :: "nat GoogleCalendarAPI" where
  "granting_api =
     \<lparr>oauth_refreshAccessToken = (\<lambda>w. (Inr ''tok'', w + 10)),
      oauth_setCredentials = (\<lambda>t w. w + 100),
      onTokenRefresh = Some (\<lambda>t w. (Inr (), w + 1000))\<rparr>"

definition refusing_api :: "nat GoogleCalendarAPI" where
  "refusing_api =
     \<lparr>oauth_refreshAccessToken = (\<lambda>w. (Inl invalid_grant, w + 10)),
      oauth_setCredentials = (\<lambda>t w. w + 100),
      onTokenRefresh = Some (\<lambda>t w. (Inr (), w + 1000))\<rparr>"

text \<open>
  Two environments over a world without state, with the clock at \<open>clock0\<close>: one in which every
  call succeeds (the remote service answers with an event of the id \<open>srv-1\<close>), and one in which
  the remote service is unreachable.
\<close>

definition answered_event :: GoogleCalendarEvent where
  "answered_event =
     \<lparr>e_id = ''srv-1'', e_summary = None, e_description = None, e_location = None,
      e_start = date_only ''2024-03-01'', e_end = date_only ''2024-03-02'',
      e_updated = None, e_recurrence = None, e_recurringEventId = None\<rparr>"

definition unreachable :: thrown where
  "unreachable =
     \<lparr>t_type = Some NETWORK_ERROR, t_code = None, t_status = None, t_response_status = None,
      t_message = ''Network error occurred. Please check your internet connection.''\<rparr>"

definition quiet_env :: "unit env" where
  "quiet_env =
     \<lparr>api_getEvents = (\<lambda>c a b w. (Inr [], w)),
      api_updateEvent = (\<lambda>c i e w. (Inr answered_event, w)),
      api_createEvent = (\<lambda>c e w. (Inr answered_event, w)),
      api_deleteEvent = (\<lambda>c i w. (Inr (), w)),
      dataApi_createNote = (\<lambda>r t w. (Inr (), w)),
      dataApi_updateRecord = (\<lambda>r w. (Inr (), w)),
      view_deleteRecord = (\<lambda>i w. (Inr (), w)),
      clock = (\<lambda>w. clock0)\<rparr>"

definition offline_env :: "unit env" where
  "offline_env =
     quiet_env\<lparr>api_getEvents := (\<lambda>c a b w. (Inl unreachable, w)),
               api_updateEvent := (\<lambda>c i e w. (Inl unreachable, w)),
               api_createEvent := (\<lambda>c e w. (Inl unreachable, w)),
               api_deleteEvent := (\<lambda>c i w. (Inl unreachable, w))\<rparr>"

definition idle :: "unit st" where
  "idle =
     \<lparr>eng = \<lparr>syncInProgress = False, eventMappings = [], conflicts = [],
              config_lastSync = None\<rparr>,
      world = (), trace = [], awaits = []\<rparr>"

definition busy :: "unit st" where
  "busy = idle\<lparr>eng := (eng idle)\<lparr>syncInProgress := True\<rparr>\<rparr>"

text \<open>A record that was pushed before but carries no last-sync time, a record that carries
  both, and a record that was never pushed.\<close>

definition pushed_record :: DataRecord where
  "pushed_record =
     \<lparr>rid = ''Review.md'',
      vals = [(''due-date'', VStr ''2024-03-01''), (''google-event-id'', VStr ''e1''),
              (''google-calendar-id'', VStr ''primary'')]\<rparr>"


definition fresh_record :: DataRecord where
  "fresh_record = \<lparr>rid = ''Plan.md'', vals = [(''due-date'', VStr ''2024-03-01'')]\<rparr>"


text \<open>A recurring master event, and a local record that has the name the engine gives to the
  note of that event but stores no event id.\<close>

definition weekly_master :: GoogleCalendarEvent where
  "weekly_master =
     \<lparr>e_id = ''abcdefghijk'', e_summary = Some ''Standup'', e_description = None,
      e_location = None,
      e_start = date_time ''2024-01-02T09:00:00Z'', e_end = date_time ''2024-01-02T09:30:00Z'',
      e_updated = Some ''2024-01-02T10:00:00Z'',
      e_recurrence = Some [''RRULE:FREQ=WEEKLY;BYDAY=TU''], e_recurringEventId = None\<rparr>"

definition homonym_record :: DataRecord where
  "homonym_record =
     \<lparr>rid = ''Standup - recurring-abcdefgh.md'', vals = [(''due-date'', VStr ''2024-01-02'')]\<rparr>"

text \<open>The names of the notes a run asked the record store to create, and the identifiers it
  asked the view to delete.\<close>

definition created_names :: "action list \<Rightarrow> string list" where
  "created_names tr = List.map_filter (\<lambda>a. case a of CreateNote r t \<Rightarrow> Some (rid r) | _ \<Rightarrow> None) tr"

definition deleted_ids :: "action list \<Rightarrow> string list" where
  "deleted_ids tr = List.map_filter (\<lambda>a. case a of DeleteRecord i \<Rightarrow> Some i | _ \<Rightarrow> None) tr"


text \<open>What a run added to the trace.\<close>

definition added :: "'w st \<Rightarrow> 'w st \<Rightarrow> action list" where
  "added s s' = drop (length (trace s)) (trace s')"

text \<open>A run only adds to the trace.\<close>

definition grows :: "'w st \<Rightarrow> 'w st \<Rightarrow> bool" where
  "grows s s' = (\<exists>xs. trace s' = trace s @ xs)"

text \<open>The waits a run went through, and a run that leaves \<open>syncInProgress\<close> as it is and
  finds it so at each of its waits.\<close>

definition waited :: "'w st \<Rightarrow> 'w st \<Rightarrow> bool list" where
  "waited s s' = drop (length (awaits s)) (awaits s')"

definition steady :: "'w st \<Rightarrow> 'w st \<Rightarrow> bool" where
  "steady s s' =
     (syncInProgress (eng s') = syncInProgress (eng s)
      \<and> (\<exists>fs. awaits s' = awaits s @ fs \<and> set fs \<subseteq> {syncInProgress (eng s)}))"

text \<open>Whether deleting a record makes the manager call the remote service: the view has a
  manager, the manager has an engine, the record is a calendar event and stores both an event
  id and a calendar id.\<close>

definition remote_delete_attempted :: "bool option \<Rightarrow> DataRecord \<Rightarrow> bool" where
  "remote_delete_attempted syncManager record' =
     (syncManager = Some True \<and> isCalendarEvent record'
      \<and> truthy (field (vals record') ''google-event-id'')
      \<and> truthy (field (vals record') ''google-calendar-id''))"

definition remote_delete :: "'w env \<Rightarrow> DataRecord \<Rightarrow> 'w \<Rightarrow> (thrown + unit) \<times> 'w" where
  "remote_delete E record' w =
     (case (field (vals record') ''google-calendar-id'', field (vals record') ''google-event-id'') of
        (Some c, Some i) \<Rightarrow> api_deleteEvent E c i w
      | _ \<Rightarrow> (Inr (), w))"

section \<open>Verified properties\<close>

subsection \<open>The mapper\<close>

























subsection \<open>The calendar\<close>

lemma daysInMonth_bounds: "28 \<le> daysInMonth y m" "daysInMonth y m \<le> 31"
  by (simp_all add: daysInMonth_def)

lemma valid_next_day: "valid_dt d \<Longrightarrow> valid_dt (next_day d)"
  using daysInMonth_bounds [of "yr d" "mo d + 1"] daysInMonth_bounds [of "yr d + 1" 1]
  by (auto simp: valid_dt_def next_day_def)

lemma valid_prev_day: 
  assumes v: "valid_dt d" shows "valid_dt (prev_day d)"
proof (cases "1 < dy d")
  case True
  then show ?thesis using v by (auto simp: valid_dt_def prev_day_def)
next
  case False
  show ?thesis
  proof (cases "1 < mo d")
    case True
    then show ?thesis
      using v False daysInMonth_bounds [of "yr d" "mo d - 1"]
      by (auto simp: valid_dt_def prev_day_def)
  next
    case m: False
    then show ?thesis
      using v False by (auto simp: valid_dt_def prev_day_def daysInMonth_def)
  qed
qed

lemma valid_forward: "valid_dt d \<Longrightarrow> valid_dt (forward n d)"
  by (induction n arbitrary: d) (auto simp: valid_next_day)

lemma valid_backward: "valid_dt d \<Longrightarrow> valid_dt (backward n d)"
  by (induction n arbitrary: d) (auto simp: valid_prev_day)

lemma valid_add_days: "valid_dt d \<Longrightarrow> valid_dt (add_days n d)"
  by (simp add: add_days_def valid_forward valid_backward)

lemma valid_add_months: 
  assumes v: "valid_dt d" shows "valid_dt (add_months n d)"
proof -
  define k where "k = int (mo d) - 1 + n"
  define m where "m = nat (k mod 12) + 1"
  have "0 \<le> k mod 12" "k mod 12 < 12" by simp_all
  then have m: "1 \<le> m" "m \<le> 12" by (simp_all add: m_def)
  have "add_months n d = d\<lparr>yr := yr d + k div 12, mo := m, dy := min (dy d) (daysInMonth (yr d + k div 12) m)\<rparr>"
    by (simp add: add_months_def Let_def k_def m_def)
  then show ?thesis
    using v m daysInMonth_bounds [of "yr d + k div 12" m]
    by (simp add: valid_dt_def)
qed

lemma valid_add_years: "valid_dt d \<Longrightarrow> valid_dt (add_years n d)"
  using daysInMonth_bounds [of "yr d + n" "mo d"]
  by (simp add: valid_dt_def add_years_def Let_def)

lemma days_before_month_step:
  "1 \<le> m \<Longrightarrow> days_before_month y (m + 1) = days_before_month y m + daysInMonth y m"
  by (cases m) auto

lemma days_before_month_12: "days_before_month y 12 = (if leap y then 335 else 334)"
  by (simp add: eval_nat_numeral daysInMonth_def)


lemma div_step:
  assumes n: "0 < (n::int)"
  shows "y div n = (y - 1) div n + (if y mod n = 0 then 1 else 0)"
proof (cases "y mod n = 0")
  case True
  have e: "n * (y div n) = y"
    using mult_div_mod_eq [of n y] True by simp
  have a: "n * (y div n - 1) = n * (y div n) - n"
    by (simp add: right_diff_distrib)
  have "y - 1 = n * (y div n - 1) + (n - 1)"
    unfolding a using e by linarith
  then have "(y - 1) div n = y div n - 1"
    by (rule int_div_pos_eq) (use n in simp_all)
  then show ?thesis using True by simp
next
  case False
  have m: "0 \<le> y mod n" "y mod n < n" using n by simp_all
  have "y - 1 = n * (y div n) + (y mod n - 1)"
    using mult_div_mod_eq [of n y] by linarith
  then have "(y - 1) div n = y div n"
    by (rule int_div_pos_eq) (use m False in simp_all)
  then show ?thesis using False by simp
qed

lemma days_before_year_step:
  "days_before_year (y + 1) = days_before_year y + (if leap y then 366 else 365)"
proof -
  have d1: "y mod 100 = 0" if "y mod 400 = 0"
  proof -
    have "(100::int) dvd 400" by simp
    then show ?thesis using that by (metis dvd_trans mod_eq_0_iff_dvd)
  qed
  have d2: "y mod 4 = 0" if "y mod 100 = 0"
  proof -
    have "(4::int) dvd 100" by simp
    then show ?thesis using that by (metis dvd_trans mod_eq_0_iff_dvd)
  qed
  have s4: "y div 4 = (y - 1) div 4 + (if y mod 4 = 0 then 1 else 0)"
    by (rule div_step) simp
  have s100: "y div 100 = (y - 1) div 100 + (if y mod 100 = 0 then 1 else 0)"
    by (rule div_step) simp
  have s400: "y div 400 = (y - 1) div 400 + (if y mod 400 = 0 then 1 else 0)"
    by (rule div_step) simp
  have "days_before_year (y + 1) - days_before_year y
      = 365 + (y div 4 - (y - 1) div 4) - (y div 100 - (y - 1) div 100) + (y div 400 - (y - 1) div 400)"
    by (simp add: days_before_year_def)
  also have "\<dots> = 365 + (if y mod 4 = 0 then 1 else 0) - (if y mod 100 = 0 then 1 else 0)
      + (if y mod 400 = 0 then 1 else 0)"
    using s4 s100 s400 by linarith
  also have "\<dots> = (if leap y then 366 else 365)"
    using d1 d2 by (cases "y mod 4 = 0"; cases "y mod 100 = 0"; cases "y mod 400 = 0") (simp_all add: leap_def)
  finally show ?thesis by linarith
qed


lemma day_number_next:
  assumes v: "valid_dt d" shows "day_number (next_day d) = day_number d + 1"
proof (cases "dy d < daysInMonth (yr d) (mo d)")
  case True
  then show ?thesis by (simp add: next_day_def day_number_def)
next
  case False
  then have e: "dy d = daysInMonth (yr d) (mo d)"
    using v by (simp add: valid_dt_def)
  show ?thesis
  proof (cases "mo d < 12")
    case True
    have "1 \<le> mo d" using v by (simp add: valid_dt_def)
    then show ?thesis
      using True False e days_before_month_step [of "mo d" "yr d"]
      by (simp add: next_day_def day_number_def)
  next
    case m: False
    then have m12: "mo d = 12" using v by (simp add: valid_dt_def)
    have "dy d = 31" using e m12 by (simp add: daysInMonth_def)
    then show ?thesis
      using m False m12 days_before_year_step [of "yr d"]
      by (simp add: next_day_def day_number_def days_before_month_12)
  qed
qed

lemma day_number_prev:
  assumes v: "valid_dt d" shows "day_number (prev_day d) = day_number d - 1"
proof (cases "1 < dy d")
  case True
  then show ?thesis by (simp add: prev_day_def day_number_def)
next
  case False
  then have e: "dy d = 1"
    using v by (simp add: valid_dt_def)
  show ?thesis
  proof (cases "1 < mo d")
    case True
    then have "days_before_month (yr d) (mo d - 1 + 1)
        = days_before_month (yr d) (mo d - 1) + daysInMonth (yr d) (mo d - 1)"
      by (intro days_before_month_step) simp
    then show ?thesis
      using True False e by (simp add: prev_day_def day_number_def)
  next
    case m: False
    then have m1: "mo d = 1" using v by (simp add: valid_dt_def)
    show ?thesis
      using m False m1 e days_before_year_step [of "yr d - 1"]
      by (simp add: prev_day_def day_number_def days_before_month_12)
  qed
qed

lemma day_number_forward: "valid_dt d \<Longrightarrow> day_number (forward n d) = day_number d + int n"
  by (induction n arbitrary: d) (auto simp: day_number_next valid_next_day)

lemma day_number_backward: "valid_dt d \<Longrightarrow> day_number (backward n d) = day_number d - int n"
  by (induction n arbitrary: d) (auto simp: day_number_prev valid_prev_day)

lemma day_number_add_days: "valid_dt d \<Longrightarrow> day_number (add_days n d) = day_number d + n"
  by (simp add: add_days_def day_number_forward day_number_backward)

lemma weekday_set_day:
  assumes "valid_dt d" "k \<le> 6"
  shows "weekday (set_day (int k) d) = k"
proof -
  define w where "w = (day_number d + 4) mod 7"
  have w: "0 \<le> w" "int (weekday d) = w"
    by (simp_all add: w_def weekday_def)
  have "day_number (set_day (int k) d) + 4 = (day_number d + 4 - w) + int k"
    using assms w by (simp add: set_day_def day_number_add_days)
  also have "day_number d + 4 - w = 7 * ((day_number d + 4) div 7)"
    unfolding w_def by (simp add: minus_mod_eq_mult_div)
  finally have "(day_number (set_day (int k) d) + 4) mod 7 = int k mod 7"
    by simp
  then show ?thesis
    using assms(2) by (simp add: weekday_def)
qed

lemma forward_within_month:
  "dy d + n \<le> daysInMonth (yr d) (mo d) \<Longrightarrow> forward n d = d\<lparr>dy := dy d + n\<rparr>"
  by (induction n arbitrary: d) (auto simp: next_day_def)

lemma backward_within_month:
  "n < dy d \<Longrightarrow> backward n d = d\<lparr>dy := dy d - n\<rparr>"
  by (induction n arbitrary: d) (auto simp: prev_day_def)

lemma dy_set_date:
  assumes "1 \<le> k" "k \<le> int (daysInMonth (yr d) (mo d))" "1 \<le> dy d"
  shows "dy (set_date k d) = nat k"
proof (cases "int (dy d) \<le> k")
  case True
  have "forward (nat (k - int (dy d))) d = d\<lparr>dy := dy d + nat (k - int (dy d))\<rparr>"
    by (rule forward_within_month) (use True assms in linarith)
  then show ?thesis using True by (simp add: set_date_def add_days_def)
next
  case False
  have "backward (nat (int (dy d) - k)) d = d\<lparr>dy := dy d - nat (int (dy d) - k)\<rparr>"
    by (rule backward_within_month) (use False assms in linarith)
  then show ?thesis using False assms by (simp add: set_date_def add_days_def)
qed

subsection \<open>The recurrence expander\<close>

lemma in_Date_range_Some: "in_Date_range d = Some d' \<Longrightarrow> d' = d"
  by (simp add: in_Date_range_def split: if_splits)

lemma valid_in_Date_range: "valid_dt d \<Longrightarrow> valid_dayjs (in_Date_range d)"
  by (simp add: in_Date_range_def valid_dayjs_def)

lemma valid_add_hours: "valid_dt d \<Longrightarrow> valid_dt (add_hours n d)"
  unfolding add_hours_def Let_def by (rule valid_add_days) (simp add: valid_dt_def)

lemma valid_add_unit: "valid_dt d \<Longrightarrow> valid_dt (add_unit u n d)"
  by (cases u) (simp_all add: valid_add_hours valid_add_days valid_add_months valid_add_years)

lemma valid_dj_add:
  assumes v: "valid_dayjs c" shows "valid_dayjs (dj_add iv u c)"
proof (cases "(iv, u, c)" rule: dj_add.cases)
  case (1 n u' d)
  then have "valid_dt d" using v by (simp add: valid_dayjs_def)
  then show ?thesis using 1 by (simp add: valid_in_Date_range valid_add_unit)
qed (simp_all add: valid_dayjs_def)

lemma valid_dj_day: "valid_dayjs c \<Longrightarrow> valid_dayjs (dj_day k c)"
  by (cases c) (simp_all add: valid_dayjs_def in_Date_range_def set_day_def valid_add_days)

lemma valid_dj_date: "valid_dayjs c \<Longrightarrow> valid_dayjs (dj_date k c)"
  by (cases "(k, c)" rule: dj_date.cases)
    (simp_all add: valid_dayjs_def in_Date_range_def set_date_def valid_add_days)

lemma valid_None: "valid_dayjs None"
  by (simp add: valid_dayjs_def)

lemma valid_dj_day_of: "valid_dayjs c \<Longrightarrow> valid_dayjs (dj_day_of e c)"
  by (cases e) (simp_all add: valid_dj_day valid_None del: dj_day.simps)

lemma valid_weekly:
  assumes v: "valid_dayjs c" shows "valid_dayjs (getNextWeeklyOccurrence c iv days)"
proof -
  have a: "valid_dayjs (dj_add iv Week c)" using v by (rule valid_dj_add)
  have b: "\<And>k. valid_dayjs (dj_day_of k c)" using v by (rule valid_dj_day_of)
  have c: "\<And>k. valid_dayjs (dj_day_of k (dj_add iv Week c))" using a by (rule valid_dj_day_of)
  show ?thesis
  proof (cases c)
    case None
    then show ?thesis
      using a c by (simp add: getNextWeeklyOccurrence_def Let_def del: dj_day_of.simps dj_add.simps)
  next
    case (Some c0)
    show ?thesis
    proof (cases "find (\<lambda>day. later day (weekday c0)) (targetDays days)")
      case None
      then show ?thesis
        using a c Some
        by (simp add: getNextWeeklyOccurrence_def Let_def del: dj_day_of.simps dj_add.simps)
    next
      case f: (Some e)
      then show ?thesis
        using a b [of e] Some
        by (simp add: getNextWeeklyOccurrence_def Let_def del: dj_day_of.simps dj_add.simps)
    qed
  qed
qed

lemma valid_monthly:
  assumes v: "valid_dayjs c" shows "valid_dayjs (getNextMonthlyOccurrence c iv days)"
proof -
  have "valid_dayjs (dj_add iv Month c)" "\<And>k. valid_dayjs (dj_date k c)"
    "\<And>k. valid_dayjs (dj_date k (dj_add iv Month c))"
    using v by (simp_all add: valid_dj_add valid_dj_date)
  then show ?thesis
    unfolding getNextMonthlyOccurrence_def Let_def
    by (simp split: list.splits del: dj_date.simps dj_add.simps)
qed

lemma valid_advance: "valid_dayjs c \<Longrightarrow> valid_dayjs (advance R c)"
  by (simp add: advance_def valid_dj_add valid_weekly valid_monthly)

lemma dayMap_le: "dayMap s = Some (DayNum k) \<Longrightarrow> k \<le> 6"
  by (simp add: dayMap_def split: if_splits)

lemma map_filter_mem: "k \<in> set (List.map_filter f xs) \<Longrightarrow> \<exists>x. f x = Some k"
  by (induction xs) (auto split: option.splits)

lemma day_numbers_simps:
  "day_numbers [] = []"
  "day_numbers (DayNum n # es) = n # day_numbers es"
  "day_numbers (Inherited # es) = day_numbers es"
  by (simp_all add: day_numbers_def List.map_filter_simps)

lemma day_numbers_append: "day_numbers (xs @ ys) = day_numbers xs @ day_numbers ys"
  by (simp add: day_numbers_def List.map_filter_def)

lemma day_numbers_DayNum: "day_numbers (map DayNum ns) = ns"
  by (induction ns) (simp_all add: day_numbers_simps)

lemma day_numbers_Inherited: "day_numbers (filter (\<lambda>e. e = Inherited) es) = []"
  by (induction es) (simp_all add: day_numbers_simps)

lemma mem_day_numbers: "n \<in> set (day_numbers es) \<longleftrightarrow> DayNum n \<in> set es"
proof (induction es)
  case Nil
  then show ?case by (simp add: day_numbers_simps)
next
  case (Cons e es)
  then show ?case by (cases e) (auto simp: day_numbers_simps)
qed

lemma day_numbers_targetDays:
  "day_numbers (targetDays days) = sort (day_numbers (List.map_filter dayMap days))"
  by (simp add: targetDays_def Let_def day_numbers_append day_numbers_DayNum day_numbers_Inherited)

lemma targetDays_le: "k \<in> set (day_numbers (targetDays days)) \<Longrightarrow> k \<le> 6"
  by (auto simp: day_numbers_targetDays mem_day_numbers dest!: map_filter_mem dayMap_le)

lemma hd_targetDays:
  assumes "day_numbers (targetDays days) \<noteq> []"
  shows "hd (targetDays days) = DayNum (hd (day_numbers (targetDays days)))"
proof -
  let ?ns = "sort (day_numbers (List.map_filter dayMap days))"
  have n: "?ns \<noteq> []" using assms by (simp add: day_numbers_targetDays)
  then have "hd (targetDays days) = DayNum (hd ?ns)"
    by (simp add: targetDays_def Let_def hd_append hd_map)
  then show ?thesis by (simp add: day_numbers_targetDays)
qed

lemma find_SomeD: "find P xs = Some x \<Longrightarrow> P x \<and> x \<in> set xs"
  by (induction xs) (auto split: if_splits)

lemma find_later:
  assumes "find (\<lambda>day. later day k) ts = Some e"
  obtains n where "e = DayNum n" "n \<in> set (day_numbers ts)"
proof -
  have "later e k" "e \<in> set ts" using find_SomeD [OF assms] by simp_all
  then show ?thesis using that by (cases e) (auto simp: mem_day_numbers)
qed

lemma dj_day_weekday:
  assumes "dj_day (int k) c = Some d" "valid_dayjs c" "k \<le> 6"
  shows "weekday d = k"
proof (cases c)
  case None
  then show ?thesis using assms by simp
next
  case (Some c0)
  then have "d = set_day (int k) c0" "valid_dt c0"
    using assms by (auto simp: valid_dayjs_def dest: in_Date_range_Some)
  then show ?thesis using assms(3) by (simp add: weekday_set_day)
qed

lemma weekly_on_listed_day:
  assumes t: "day_numbers (targetDays days) \<noteq> []"
    and v: "valid_dayjs c"
    and d: "getNextWeeklyOccurrence c iv days = Some d"
  shows "weekday d \<in> set (day_numbers (targetDays days))"
proof -
  let ?ts = "targetDays days"
  let ?ns = "day_numbers ?ts"
  have ne: "?ts \<noteq> []" using t by (auto simp: day_numbers_simps)
  have h: "hd ?ts = DayNum (hd ?ns)" "hd ?ns \<in> set ?ns"
    using t hd_targetDays by simp_all
  consider (a) k where "k \<in> set ?ns" "dj_day (int k) c = Some d"
    | (b) "dj_day (int (hd ?ns)) (dj_add iv Week c) = Some d"
  proof (cases c)
    case None
    then have "dj_day_of (hd ?ts) (dj_add iv Week c) = Some d"
      using d ne by (simp add: getNextWeeklyOccurrence_def Let_def del: dj_add.simps)
    then show ?thesis using that(2) h by (simp del: dj_day.simps dj_add.simps)
  next
    case (Some c0)
    show ?thesis
    proof (cases "find (\<lambda>day. later day (weekday c0)) ?ts")
      case None
      then have "dj_day_of (hd ?ts) (dj_add iv Week c) = Some d"
        using d ne Some by (simp add: getNextWeeklyOccurrence_def Let_def del: dj_add.simps)
      then show ?thesis using that(2) h by (simp del: dj_day.simps dj_add.simps)
    next
      case f: (Some e)
      then obtain n where n: "e = DayNum n" "n \<in> set ?ns" by (rule find_later)
      have "dj_day_of e c = Some d"
        using d ne Some f by (simp add: getNextWeeklyOccurrence_def Let_def del: dj_add.simps dj_day_of.simps)
      then show ?thesis using that(1) n by (simp del: dj_day.simps)
    qed
  qed
  then show ?thesis
  proof cases
    case a
    then show ?thesis
      using dj_day_weekday [OF a(2) v] targetDays_le by auto
  next
    case b
    then show ?thesis
      using dj_day_weekday [OF b valid_dj_add [OF v]] targetDays_le h by auto
  qed
qed

lemma dj_date_dy:
  assumes "dj_date (Some k) (Some c) = Some d" "valid_dt c" "1 \<le> k"
    "k \<le> int (daysInMonth (yr c) (mo c))"
  shows "int (dy d) = k"
proof -
  have "d = set_date k c"
    using assms(1) by (auto dest: in_Date_range_Some)
  then show ?thesis
    using assms dy_set_date [of k c] by (simp add: valid_dt_def)
qed

lemma monthly_on_listed_day:
  assumes f: "days = Some f # rest" "1 \<le> f" "f \<le> 28"
    and v: "valid_dayjs c"
    and d: "getNextMonthlyOccurrence c iv days = Some d"
  shows "Some (int (dy d)) \<in> set days"
proof (cases c)
  case None
  then show ?thesis
    using d f by (simp add: getNextMonthlyOccurrence_def Let_def)
next
  case (Some c0)
  then have v0: "valid_dt c0" using v by (simp add: valid_dayjs_def)
  let ?nd = "find (\<lambda>day. case day of Some n \<Rightarrow> int (dy c0) < n | None \<Rightarrow> False) days"
  show ?thesis
  proof (cases "\<exists>n. ?nd = Some (Some n) \<and> n \<le> int (daysInMonth (yr c0) (mo c0))")
    case True
    then obtain n where n: "?nd = Some (Some n)" "n \<le> int (daysInMonth (yr c0) (mo c0))"
      by blast
    then have m: "Some n \<in> set days" "int (dy c0) < n"
      by (auto dest: find_SomeD)
    have "dj_date (Some n) (Some c0) = Some d"
      using d Some n by (simp add: getNextMonthlyOccurrence_def Let_def)
    then have "int (dy d) = n"
      using v0 n(2) m(2) by (intro dj_date_dy [of n c0]) auto
    then show ?thesis using m(1) by simp
  next
    case False
    then have nf: "\<not> (case (?nd, Some c0) of
                    (Some (Some n), Some c) \<Rightarrow> n \<le> int (daysInMonth (yr c) (mo c))
                  | _ \<Rightarrow> False)"
      by (auto split: option.splits)
    have e: "dj_date (min_day (Some f) (dj_add iv Month c)) (dj_add iv Month c) = Some d"
      using d Some nf f(1) by (simp add: getNextMonthlyOccurrence_def Let_def)
    then obtain m where m: "dj_add iv Month c = Some m"
      by (cases "dj_add iv Month c") (auto simp: min_day_def)
    have vm: "valid_dt m"
      using valid_dj_add [OF v, of iv Month] m by (simp add: valid_dayjs_def)
    have "f \<le> int (daysInMonth (yr m) (mo m))"
      using f(3) daysInMonth_bounds(1) [of "yr m" "mo m"] by linarith
    then have "min_day (Some f) (Some m) = Some f"
      by (simp add: min_day_def)
    then have "dj_date (Some f) (Some m) = Some d"
      using e m by simp
    then have "int (dy d) = f"
      using vm f(2) \<open>f \<le> int (daysInMonth (yr m) (mo m))\<close> by (intro dj_date_dy [of f m]) auto
    then show ?thesis using f(1) by simp
  qed
qed

declare expand_loop.simps [simp del]

lemma expand_loop_length:
  "length (expand_loop R vs ve cur n occ) \<le> length occ + nat (maxOccurrences R - n)"
proof (induction R vs ve cur n occ rule: expand_loop.induct)
  case (1 R vs ve cur n occ)
  show ?case
  proof (cases "n < maxOccurrences R \<and> isBefore cur (dj_add (Some 1) Year ve)
                 \<and> \<not> until_passed R cur \<and> \<not> count_reached R n")
    case True
    then have "length (expand_loop R vs ve cur n occ)
        \<le> length (if shouldInclude R (advance R cur) \<and> in_view vs ve (advance R cur)
                    then occ @ [advance R cur] else occ) + nat (maxOccurrences R - (n + 1))"
      using "1.IH" [OF _ _ _ refl] by (subst expand_loop.simps) (simp add: Let_def)
    also have "\<dots> \<le> length occ + nat (maxOccurrences R - n)"
      using True by auto
    finally show ?thesis .
  next
    case False
    then show ?thesis
      by (subst expand_loop.simps) auto
  qed
qed

text \<open>What the loop appends: dates that \<open>advance\<close> produced from a valid or invalid current
  value, passed the BYMONTH test and lie in the view.\<close>

lemma expand_loop_appends:
  "P cur \<Longrightarrow> (\<And>c. P c \<Longrightarrow> P (advance R c)) \<Longrightarrow>
   \<exists>gen. expand_loop R vs ve cur n occ = occ @ gen
      \<and> (\<forall>d\<in>set gen. shouldInclude R d \<and> in_view vs ve d \<and> (\<exists>c. P c \<and> d = advance R c))"
proof (induction R vs ve cur n occ rule: expand_loop.induct)
  case (1 R vs ve cur n occ)
  show ?case
  proof (cases "n < maxOccurrences R \<and> isBefore cur (dj_add (Some 1) Year ve)
                 \<and> \<not> until_passed R cur \<and> \<not> count_reached R n")
    case True
    let ?c = "advance R cur"
    let ?occ = "if shouldInclude R ?c \<and> in_view vs ve ?c then occ @ [?c] else occ"
    have e: "expand_loop R vs ve cur n occ = expand_loop R vs ve ?c (n + 1) ?occ"
      using True by (subst expand_loop.simps) (simp add: Let_def)
    have "P ?c" using "1.prems" by blast
    then obtain gen where g: "expand_loop R vs ve ?c (n + 1) ?occ = ?occ @ gen"
        "\<forall>d\<in>set gen. shouldInclude R d \<and> in_view vs ve d \<and> (\<exists>c. P c \<and> d = advance R c)"
      using "1.IH" [OF _ _ _ refl] True "1.prems"(2) by blast
    show ?thesis
    proof (cases "shouldInclude R ?c \<and> in_view vs ve ?c")
      case True
      then have "expand_loop R vs ve cur n occ = occ @ (?c # gen)"
        using e g(1) by simp
      moreover have "\<forall>d\<in>set (?c # gen). shouldInclude R d \<and> in_view vs ve d \<and> (\<exists>c. P c \<and> d = advance R c)"
        using True g(2) "1.prems"(1) by auto
      ultimately show ?thesis by blast
    next
      case False
      then have "expand_loop R vs ve cur n occ = occ @ gen"
        using e g(1) by auto
      then show ?thesis using g(2) by blast
    qed
  next
    case False
    then have "expand_loop R vs ve cur n occ = occ @ []"
      by (subst expand_loop.simps) auto
    then show ?thesis by force
  qed
qed

lemma in_view_Some: "in_view vs ve d \<Longrightarrow> \<exists>x. d = Some x"
  by (cases d) (simp_all add: in_view_def)

text \<open>A BYDAY entry that is no weekday code but a name every object inherits makes the next
  date invalid, which ends the expansion; an entry that is neither is dropped.\<close>

lemma inherited_name_ends_expansion:
  "parseRecurrenceRule iso_lib ''FREQ=WEEKLY;BYDAY=constructor;COUNT=3'' (ymd 2024 1 1)
       (ymd 2024 1 1) (ymd 2024 1 31)
     = [ymd 2024 1 1]
   \<and> parseRecurrenceRule iso_lib ''FREQ=WEEKLY;BYDAY=XX;COUNT=3'' (ymd 2024 1 1)
       (ymd 2024 1 1) (ymd 2024 1 31)
     = [ymd 2024 1 1, ymd 2024 1 8, ymd 2024 1 15]"
  by code_simp

lemma targetDays_Nil: "targetDays [] = []"
  by (simp add: targetDays_def day_numbers_simps)

lemma parse_appends:
  assumes v: "valid_dayjs startDate"
  shows "\<exists>gen. parseRecurrenceRule L rrule startDate vs ve
            = (if in_view vs ve startDate then [startDate] else []) @ gen
          \<and> (\<forall>d\<in>set gen. shouldInclude (parse_rule L rrule) d \<and> in_view vs ve d
                \<and> (\<exists>c. valid_dayjs c \<and> d = advance (parse_rule L rrule) c))"
  unfolding parseRecurrenceRule_def Let_def
  by (rule expand_loop_appends [where P = valid_dayjs, OF v]) (rule valid_advance)

lemma generated_eq:
  "parseRecurrenceRule L rrule startDate vs ve
      = (if in_view vs ve startDate then [startDate] else []) @ gen
   \<Longrightarrow> generated L rrule startDate vs ve = gen"
  by (simp add: generated_def)

text \<open>
  C3 (as amended). For a rule whose COUNT is a number \<open>N\<close> of at least 1 (with or without
  UNTIL), \<open>parseRecurrenceRule\<close> returns at most \<open>N\<close> dates: the anchor, when it lies in the
  view, followed by the dates the loop generated. Every generated date is a valid date; its
  month is listed in BYMONTH when BYMONTH is present; under FREQ=WEEKLY with a BYDAY that names
  at least one of the seven weekday codes its weekday is one of those named; and under
  FREQ=MONTHLY with a BYMONTHDAY whose first entry lies in 1..28 its day of the month is listed
  in BYMONTHDAY. The anchor itself is not filtered.
\<close>

theorem count_rule_expansion:
  assumes c: "count (parse_rule L rrule) = Some (Some N)" and n: "1 \<le> N"
    and v: "valid_dayjs startDate"
  shows "int (length (parseRecurrenceRule L rrule startDate viewStart viewEnd)) \<le> N
       \<and> parseRecurrenceRule L rrule startDate viewStart viewEnd
           = (if in_view viewStart viewEnd startDate then [startDate] else [])
               @ generated L rrule startDate viewStart viewEnd
       \<and> (\<forall>d \<in> set (generated L rrule startDate viewStart viewEnd).
             (\<exists>x. d = Some x
               \<and> (byMonth (parse_rule L rrule) \<noteq> [] \<longrightarrow>
                     Some (int (mo x)) \<in> set (byMonth (parse_rule L rrule)))
               \<and> (freq (parse_rule L rrule) = Some ''WEEKLY''
                    \<and> day_numbers (targetDays (byDay (parse_rule L rrule))) \<noteq> [] \<longrightarrow>
                     weekday x \<in> set (day_numbers (targetDays (byDay (parse_rule L rrule)))))
               \<and> (freq (parse_rule L rrule) = Some ''MONTHLY''
                    \<and> (\<exists>f rest. byMonthDay (parse_rule L rrule) = Some f # rest \<and> 1 \<le> f \<and> f \<le> 28) \<longrightarrow>
                     Some (int (dy x)) \<in> set (byMonthDay (parse_rule L rrule)))))"
proof -
  let ?R = "parse_rule L rrule"
  let ?res = "parseRecurrenceRule L rrule startDate viewStart viewEnd"
  let ?anchor = "if in_view viewStart viewEnd startDate then [startDate] else []"
  have m: "maxOccurrences ?R = N"
    using c n by (simp add: maxOccurrences_def)
  have "length ?res \<le> length ?anchor + nat (maxOccurrences ?R - 1)"
    unfolding parseRecurrenceRule_def Let_def by (rule expand_loop_length)
  then have len: "int (length ?res) \<le> N"
    using m n by (auto split: if_splits)
  obtain gen where g: "?res = ?anchor @ gen"
    and p: "\<forall>d\<in>set gen. shouldInclude ?R d \<and> in_view viewStart viewEnd d
                \<and> (\<exists>c. valid_dayjs c \<and> d = advance ?R c)"
    using parse_appends [OF v, of L rrule viewStart viewEnd] by blast
  have ge: "generated L rrule startDate viewStart viewEnd = gen"
    using g by (rule generated_eq)
  have "\<exists>x. d = Some x
               \<and> (byMonth ?R \<noteq> [] \<longrightarrow> Some (int (mo x)) \<in> set (byMonth ?R))
               \<and> (freq ?R = Some ''WEEKLY'' \<and> day_numbers (targetDays (byDay ?R)) \<noteq> [] \<longrightarrow>
                     weekday x \<in> set (day_numbers (targetDays (byDay ?R))))
               \<and> (freq ?R = Some ''MONTHLY''
                    \<and> (\<exists>f rest. byMonthDay ?R = Some f # rest \<and> 1 \<le> f \<and> f \<le> 28) \<longrightarrow>
                     Some (int (dy x)) \<in> set (byMonthDay ?R))"
    if d: "d \<in> set gen" for d
  proof -
    obtain x where x: "d = Some x"
      using p d in_view_Some by blast
    obtain c where cc: "valid_dayjs c" "Some x = advance ?R c"
      using p d x by blast
    have "shouldInclude ?R (Some x)"
      using p d x by blast
    then have bm: "byMonth ?R \<noteq> [] \<longrightarrow> Some (int (mo x)) \<in> set (byMonth ?R)"
      by (auto simp: shouldInclude_def month_listed_def)
    have wk: "weekday x \<in> set (day_numbers (targetDays (byDay ?R)))"
      if "freq ?R = Some ''WEEKLY''" "day_numbers (targetDays (byDay ?R)) \<noteq> []"
    proof -
      have "byDay ?R \<noteq> []" using that(2) targetDays_Nil by (auto simp: day_numbers_simps)
      then have "getNextWeeklyOccurrence c (interval ?R) (byDay ?R) = Some x"
        using cc(2) that(1) by (simp add: advance_def)
      then show ?thesis
        by (rule weekly_on_listed_day [OF that(2) cc(1)])
    qed
    have mn: "Some (int (dy x)) \<in> set (byMonthDay ?R)"
      if "freq ?R = Some ''MONTHLY''" "byMonthDay ?R = Some f # rest" "1 \<le> f" "f \<le> 28" for f rest
    proof -
      have "getNextMonthlyOccurrence c (interval ?R) (byMonthDay ?R) = Some x"
        using cc(2) that(1,2) by (simp add: advance_def)
      then show ?thesis
        by (rule monthly_on_listed_day [OF that(2,3,4) cc(1)])
    qed
    show ?thesis using x bm wk mn by blast
  qed
  then show ?thesis
    using len g ge by simp
qed


theorem count_rule_expansion_witness:
  "int (length (parseRecurrenceRule iso_lib ''FREQ=WEEKLY;BYDAY=MO,WE;COUNT=4'' (ymd 2024 1 1)
          (ymd 2024 1 1) (ymd 2024 1 31))) \<le> 4
   \<and> parseRecurrenceRule iso_lib ''FREQ=WEEKLY;BYDAY=MO,WE;COUNT=4'' (ymd 2024 1 1)
          (ymd 2024 1 1) (ymd 2024 1 31)
       = [ymd 2024 1 1, ymd 2024 1 3, ymd 2024 1 8, ymd 2024 1 10]"
proof -
  have c: "count (parse_rule iso_lib ''FREQ=WEEKLY;BYDAY=MO,WE;COUNT=4'') = Some (Some 4)"
    by code_simp
  have n: "(1::int) \<le> 4" by simp
  have v: "valid_dayjs (ymd 2024 1 1)"
    by code_simp
  have e: "parseRecurrenceRule iso_lib ''FREQ=WEEKLY;BYDAY=MO,WE;COUNT=4'' (ymd 2024 1 1)
          (ymd 2024 1 1) (ymd 2024 1 31)
       = [ymd 2024 1 1, ymd 2024 1 3, ymd 2024 1 8, ymd 2024 1 10]"
    by code_simp
  show ?thesis
    using count_rule_expansion [OF c n v, of "ymd 2024 1 1" "ymd 2024 1 31"] e by blast
qed

text \<open>
  C3 as stated fails: the anchor is emitted whatever BYMONTH says (an anchor in January under
  BYMONTH=2); BYDAY is not a filter under FREQ=DAILY (a Tuesday and a Wednesday under BYDAY=MO);
  BYMONTHDAY is clamped to the length of the month (30 April under BYMONTHDAY=31); and COUNT=0
  does not bound the result (two dates in a view of two days).
\<close>

theorem count_rule_filters_counterexample:
  "parseRecurrenceRule iso_lib ''FREQ=DAILY;COUNT=3;BYMONTH=2'' (ymd 2024 1 31)
       (ymd 2024 1 1) (ymd 2024 2 28)
     = [ymd 2024 1 31, ymd 2024 2 1, ymd 2024 2 2]
   \<and> parseRecurrenceRule iso_lib ''FREQ=DAILY;COUNT=3;BYDAY=MO'' (ymd 2024 1 1)
       (ymd 2024 1 1) (ymd 2024 1 31)
     = [ymd 2024 1 1, ymd 2024 1 2, ymd 2024 1 3]
   \<and> map_option weekday (ymd 2024 1 2) = Some 2
   \<and> parseRecurrenceRule iso_lib ''FREQ=MONTHLY;COUNT=3;BYMONTHDAY=31'' (ymd 2024 3 31)
       (ymd 2024 1 1) (ymd 2024 12 31)
     = [ymd 2024 3 31, ymd 2024 4 30, ymd 2024 5 31]
   \<and> parseRecurrenceRule iso_lib ''FREQ=DAILY;COUNT=0'' (ymd 2024 1 1)
       (ymd 2024 1 1) (ymd 2024 1 2)
     = [ymd 2024 1 1, ymd 2024 1 2]"
  by code_simp

text \<open>
  C4. The statement of the specification is that an unknown FREQ stops the expansion, leaving
  at most the anchor, once. The \<open>break\<close> of the \<open>default\<close> branch leaves the \<open>switch\<close> only:
  the loop runs on with the anchor as its current date and emits it on every round. With
  FREQ=HOURLY and COUNT=3 the anchor is returned three times.
\<close>

theorem unknown_freq_repeats_anchor:
  "parseRecurrenceRule iso_lib ''FREQ=HOURLY;COUNT=3'' (ymd 2024 1 2) (ymd 2024 1 1) (ymd 2024 1 31)
     = [ymd 2024 1 2, ymd 2024 1 2, ymd 2024 1 2]"
  by code_simp

subsection \<open>The retry wrapper\<close>

lemma logged_eq: "f w = (r, w') \<Longrightarrow> logged x f (w, l) = (r, w', l @ [x])"
  by (simp add: logged_def)

lemma retry_cases:
  assumes "apiCall w = (Inl error, w1)" "isAuthenticationError error"
  obtains
    (refresh_fails) e w2 where "refreshAccessToken api w1 = (Inl e, w2)"
      "executeWithRetry api apiCall (w, l)
         = (Inl refresh_failed, w2, l @ [ApiCall, TokenRefresh])"
  | (no_callback) tok w2 r w3 where "refreshAccessToken api w1 = (Inr tok, w2)"
      "onTokenRefresh api = None" "apiCall w2 = (r, w3)"
      "executeWithRetry api apiCall (w, l)
         = (case r of Inr v \<Rightarrow> Inr v | Inl e \<Rightarrow> Inl refresh_failed,
            w3, l @ [ApiCall, TokenRefresh, ApiCall])"
  | (callback_fails) tok w2 cb e w3 where "refreshAccessToken api w1 = (Inr tok, w2)"
      "onTokenRefresh api = Some cb" "cb tok w2 = (Inl e, w3)"
      "executeWithRetry api apiCall (w, l)
         = (Inl refresh_failed, w3, l @ [ApiCall, TokenRefresh, TokenCallback tok])"
  | (retried) tok w2 cb u w3 r w4 where "refreshAccessToken api w1 = (Inr tok, w2)"
      "onTokenRefresh api = Some cb" "cb tok w2 = (Inr u, w3)" "apiCall w3 = (r, w4)"
      "executeWithRetry api apiCall (w, l)
         = (case r of Inr v \<Rightarrow> Inr v | Inl e \<Rightarrow> Inl refresh_failed,
            w4, l @ [ApiCall, TokenRefresh, TokenCallback tok, ApiCall])"
proof -
  obtain rr w2 where r: "refreshAccessToken api w1 = (rr, w2)" by (cases "refreshAccessToken api w1")
  note a = logged_eq [where f = apiCall and w = w and x = ApiCall and l = l, OF assms(1)]
  note b = logged_eq [where f = "refreshAccessToken api" and w = w1 and x = TokenRefresh and l = "l @ [ApiCall]", OF r]
  show ?thesis
  proof (cases rr)
    case (Inl e)
    then show ?thesis using assms a b r refresh_fails by (simp add: executeWithRetry_def)
  next
    case (Inr tok)
    show ?thesis
    proof (cases "onTokenRefresh api")
      case None
      obtain r3 w3 where c: "apiCall w2 = (r3, w3)" by (cases "apiCall w2")
      note d = logged_eq [where f = apiCall and w = w2 and x = ApiCall and l = "l @ [ApiCall, TokenRefresh]", OF c]
      have "executeWithRetry api apiCall (w, l)
         = (case r3 of Inr v \<Rightarrow> Inr v | Inl e \<Rightarrow> Inl refresh_failed,
            w3, l @ [ApiCall, TokenRefresh, ApiCall])"
        using assms a b Inr None d by (cases r3) (simp_all add: executeWithRetry_def)
      then show ?thesis using no_callback r Inr None c by blast
    next
      case (Some cb)
      obtain rc w3 where c: "cb tok w2 = (rc, w3)" by (cases "cb tok w2")
      note d = logged_eq [where f = "cb tok" and w = w2 and x = "TokenCallback tok" and l = "l @ [ApiCall, TokenRefresh]", OF c]
      show ?thesis
      proof (cases rc)
        case (Inl e)
        then show ?thesis
          using assms a b r Inr Some c d callback_fails by (simp add: executeWithRetry_def)
      next
        case u: (Inr u)
        obtain r4 w4 where f: "apiCall w3 = (r4, w4)" by (cases "apiCall w3")
        note g = logged_eq [where f = apiCall and w = w3 and x = ApiCall and l = "l @ [ApiCall, TokenRefresh, TokenCallback tok]", OF f]
        have "executeWithRetry api apiCall (w, l)
         = (case r4 of Inr v \<Rightarrow> Inr v | Inl e \<Rightarrow> Inl refresh_failed,
            w4, l @ [ApiCall, TokenRefresh, TokenCallback tok, ApiCall])"
          using assms a b Inr Some d u g by (cases r4) (simp_all add: executeWithRetry_def)
        then show ?thesis using retried r Inr Some c u f by blast
      qed
    qed
  qed
qed

text \<open>
  C2 (as amended). When the wrapped call fails with a 401, the wrapper attempts exactly one
  token refresh and calls the remote service at most twice; what it did is told by the log of
  the calls and by the world it leaves, which is the world the last of these calls left. If the
  refresh fails the call is not retried and no callback runs. If the refresh succeeds, a
  registered callback is invoked once with the new access token and, unless the callback
  throws, the call is retried exactly once; without a callback the call is retried exactly
  once. The retried call decides the outcome: its value is returned, and its failure surfaces,
  like a failure of the refresh or of the callback, as the error \<open>refresh_failed\<close>, whose kind is
  \<open>TOKEN_REFRESH_FAILED\<close> and whose message says that authentication failed.
\<close>

theorem single_refresh_single_retry:
  assumes a: "apiCall w = (Inl error, w1)" and u: "isAuthenticationError error"
  shows "\<exists>res w' steps. executeWithRetry api apiCall (w, log) = (res, w', log @ steps)
     \<and> count_step TokenRefresh steps = 1
     \<and> count_step ApiCall steps \<le> 2
     \<and> (\<forall>e w2. refreshAccessToken api w1 = (Inl e, w2) \<longrightarrow>
           res = Inl refresh_failed \<and> w' = w2 \<and> steps = [ApiCall, TokenRefresh])
     \<and> (\<forall>tok w2. refreshAccessToken api w1 = (Inr tok, w2) \<longrightarrow>
           (onTokenRefresh api = None \<longrightarrow>
              (\<forall>r w3. apiCall w2 = (r, w3) \<longrightarrow>
                 res = (case r of Inr v \<Rightarrow> Inr v | Inl e \<Rightarrow> Inl refresh_failed)
                 \<and> w' = w3 \<and> steps = [ApiCall, TokenRefresh, ApiCall]))
           \<and> (\<forall>cb. onTokenRefresh api = Some cb \<longrightarrow>
                 (\<forall>e w3. cb tok w2 = (Inl e, w3) \<longrightarrow>
                    res = Inl refresh_failed \<and> w' = w3
                    \<and> steps = [ApiCall, TokenRefresh, TokenCallback tok])
                 \<and> (\<forall>x w3 r w4. cb tok w2 = (Inr x, w3) \<and> apiCall w3 = (r, w4) \<longrightarrow>
                       res = (case r of Inr v \<Rightarrow> Inr v | Inl e \<Rightarrow> Inl refresh_failed)
                       \<and> w' = w4
                       \<and> steps = [ApiCall, TokenRefresh, TokenCallback tok, ApiCall])))"
  using a u
proof (cases rule: retry_cases [where api = api and l = log])
  case (refresh_fails e w2)
  then show ?thesis by (simp add: count_step_def)
next
  case (no_callback tok w2 r w3)
  then show ?thesis by (simp add: count_step_def)
next
  case (callback_fails tok w2 cb e w3)
  then show ?thesis by (simp add: count_step_def)
next
  case (retried tok w2 cb x w3 r w4)
  then show ?thesis by (simp add: count_step_def)
qed

theorem single_refresh_single_retry_witness:
  "executeWithRetry granting_api (flaky_call 1) (0, [])
     = (Inr 7, 1112, [ApiCall, TokenRefresh, TokenCallback ''tok'', ApiCall])
   \<and> executeWithRetry granting_api (flaky_call 2) (0, [])
     = (Inl refresh_failed, 1112, [ApiCall, TokenRefresh, TokenCallback ''tok'', ApiCall])
   \<and> executeWithRetry refusing_api (flaky_call 1) (0, [])
     = (Inl refresh_failed, 11, [ApiCall, TokenRefresh])"
proof -
  have u: "isAuthenticationError unauthorized"
    by (simp add: isAuthenticationError_def unauthorized_def)
  have cb: "onTokenRefresh granting_api = Some (\<lambda>t w. (Inr (), w + 1000))"
    by (simp add: granting_api_def)
  have g: "refreshAccessToken granting_api 1 = (Inr ''tok'', 111)"
    by (simp add: refreshAccessToken_def granting_api_def)
  have r: "refreshAccessToken refusing_api 1 = (Inl invalid_grant, 11)"
    by (simp add: refreshAccessToken_def refusing_api_def)
  have a1: "flaky_call 1 0 = (Inl unauthorized, 1)" and a2: "flaky_call 2 0 = (Inl unauthorized, 1)"
    by (simp_all add: flaky_call_def)
  have c1: "(\<lambda>t w. (Inr (), w + 1000)) ''tok'' 111 = (Inr (), (1111::nat))
      \<and> flaky_call 1 1111 = (Inr 7, 1112)"
    by (simp add: flaky_call_def)
  have c2: "(\<lambda>t w. (Inr (), w + 1000)) ''tok'' 111 = (Inr (), (1111::nat))
      \<and> flaky_call 2 1111 = (Inl unauthorized, 1112)"
    by (simp add: flaky_call_def)
  obtain res1 w1 steps1 where
    e1: "executeWithRetry granting_api (flaky_call 1) (0, []) = (res1, w1, [] @ steps1)"
    and k1: "\<forall>tok w2. refreshAccessToken granting_api 1 = (Inr tok, w2) \<longrightarrow>
           (onTokenRefresh granting_api = None \<longrightarrow>
              (\<forall>r w3. flaky_call 1 w2 = (r, w3) \<longrightarrow>
                 res1 = (case r of Inr v \<Rightarrow> Inr v | Inl e \<Rightarrow> Inl refresh_failed)
                 \<and> w1 = w3 \<and> steps1 = [ApiCall, TokenRefresh, ApiCall]))
           \<and> (\<forall>cb. onTokenRefresh granting_api = Some cb \<longrightarrow>
                 (\<forall>e w3. cb tok w2 = (Inl e, w3) \<longrightarrow>
                    res1 = Inl refresh_failed \<and> w1 = w3
                    \<and> steps1 = [ApiCall, TokenRefresh, TokenCallback tok])
                 \<and> (\<forall>x w3 r w4. cb tok w2 = (Inr x, w3) \<and> flaky_call 1 w3 = (r, w4) \<longrightarrow>
                       res1 = (case r of Inr v \<Rightarrow> Inr v | Inl e \<Rightarrow> Inl refresh_failed)
                       \<and> w1 = w4
                       \<and> steps1 = [ApiCall, TokenRefresh, TokenCallback tok, ApiCall]))"
    using single_refresh_single_retry
      [where apiCall = "flaky_call 1" and w = 0 and api = granting_api and log = "[]", OF a1 u]
    by (elim exE conjE) (rule that)
  have A: "executeWithRetry granting_api (flaky_call 1) (0, [])
     = (Inr 7, 1112, [ApiCall, TokenRefresh, TokenCallback ''tok'', ApiCall])"
    using e1 k1 [THEN spec, THEN spec, THEN mp, OF g, THEN conjunct2, THEN spec, THEN mp, OF cb,
        THEN conjunct2, THEN spec, THEN spec, THEN spec, THEN spec, THEN mp, OF c1]
    by simp
  obtain res2 w2 steps2 where
    e2: "executeWithRetry granting_api (flaky_call 2) (0, []) = (res2, w2, [] @ steps2)"
    and k2: "\<forall>tok w2'. refreshAccessToken granting_api 1 = (Inr tok, w2') \<longrightarrow>
           (onTokenRefresh granting_api = None \<longrightarrow>
              (\<forall>r w3. flaky_call 2 w2' = (r, w3) \<longrightarrow>
                 res2 = (case r of Inr v \<Rightarrow> Inr v | Inl e \<Rightarrow> Inl refresh_failed)
                 \<and> w2 = w3 \<and> steps2 = [ApiCall, TokenRefresh, ApiCall]))
           \<and> (\<forall>cb. onTokenRefresh granting_api = Some cb \<longrightarrow>
                 (\<forall>e w3. cb tok w2' = (Inl e, w3) \<longrightarrow>
                    res2 = Inl refresh_failed \<and> w2 = w3
                    \<and> steps2 = [ApiCall, TokenRefresh, TokenCallback tok])
                 \<and> (\<forall>x w3 r w4. cb tok w2' = (Inr x, w3) \<and> flaky_call 2 w3 = (r, w4) \<longrightarrow>
                       res2 = (case r of Inr v \<Rightarrow> Inr v | Inl e \<Rightarrow> Inl refresh_failed)
                       \<and> w2 = w4
                       \<and> steps2 = [ApiCall, TokenRefresh, TokenCallback tok, ApiCall]))"
    using single_refresh_single_retry
      [where apiCall = "flaky_call 2" and w = 0 and api = granting_api and log = "[]", OF a2 u]
    by (elim exE conjE) (rule that)
  have B: "executeWithRetry granting_api (flaky_call 2) (0, [])
     = (Inl refresh_failed, 1112, [ApiCall, TokenRefresh, TokenCallback ''tok'', ApiCall])"
    using e2 k2 [THEN spec, THEN spec, THEN mp, OF g, THEN conjunct2, THEN spec, THEN mp, OF cb,
        THEN conjunct2, THEN spec, THEN spec, THEN spec, THEN spec, THEN mp, OF c2]
    by simp
  obtain res3 w3 steps3 where
    e3: "executeWithRetry refusing_api (flaky_call 1) (0, []) = (res3, w3, [] @ steps3)"
    and k3: "\<forall>e w2. refreshAccessToken refusing_api 1 = (Inl e, w2) \<longrightarrow>
           res3 = Inl refresh_failed \<and> w3 = w2 \<and> steps3 = [ApiCall, TokenRefresh]"
    using single_refresh_single_retry
      [where apiCall = "flaky_call 1" and w = 0 and api = refusing_api and log = "[]", OF a1 u]
    by (elim exE conjE) (rule that)
  have C: "executeWithRetry refusing_api (flaky_call 1) (0, [])
     = (Inl refresh_failed, 11, [ApiCall, TokenRefresh])"
    using e3 k3 [THEN spec, THEN spec, THEN mp, OF r] by simp
  show ?thesis using A B C by (intro conjI)
qed

text \<open>
  C2 as stated fails in the kind of the error: after a 401, a failed retry and a failed refresh
  both surface with the kind \<open>TOKEN_REFRESH_FAILED\<close>, not \<open>AUTHENTICATION_FAILED\<close>; and after a
  failed refresh the call is not retried at all.
\<close>

theorem retry_failure_kind_counterexample:
  "executeWithRetry granting_api (flaky_call 2) (0, [])
     = (Inl \<lparr>g_type = TOKEN_REFRESH_FAILED,
             g_message = ''Authentication failed. Please re-authenticate with Google Calendar.''\<rparr>,
        1112, [ApiCall, TokenRefresh, TokenCallback ''tok'', ApiCall])
   \<and> executeWithRetry refusing_api (flaky_call 1) (0, [])
     = (Inl \<lparr>g_type = TOKEN_REFRESH_FAILED,
             g_message = ''Authentication failed. Please re-authenticate with Google Calendar.''\<rparr>,
        11, [ApiCall, TokenRefresh])
   \<and> TOKEN_REFRESH_FAILED \<noteq> AUTHENTICATION_FAILED"
  by code_simp

subsection \<open>The sync engine\<close>

declare digits.simps [simp del] digits_of.simps [simp del]

subsection \<open>The trace\<close>

lemma added_self: "added s s = []"
  by (simp add: added_def)

lemma grows_refl: "grows s s"
  by (simp add: grows_def)

lemma grows_trans: "grows s s1 \<Longrightarrow> grows s1 s2 \<Longrightarrow> grows s s2"
  by (auto simp: grows_def)

lemma perform_trace: "perform a f s = (r, s') \<Longrightarrow> trace s' = trace s @ [a]"
  by (auto simp: perform_def split: prod.splits)

lemma trace_track: "trace (track n g c d E s) = trace s"
  by (simp add: track_def)

lemma updateRecordSyncMetadata_trace:
  "updateRecordSyncMetadata E r i c s = (x, s') \<Longrightarrow> \<exists>a. trace s' = trace s @ [a]"
  by (auto simp: updateRecordSyncMetadata_def Let_def dest: perform_trace)

lemma grows_sync_record: "sync_record E L c r s = (x, s') \<Longrightarrow> grows s s'"
  unfolding sync_record_def Let_def grows_def
  by (auto simp: trace_track split: option.splits sum.splits prod.splits if_splits
        dest!: perform_trace updateRecordSyncMetadata_trace)

lemma grows_syncObsidianToGoogle: "grows s (snd (syncObsidianToGoogle E L c rs s))"
proof (induction rs arbitrary: s)
  case Nil
  then show ?case by (simp add: grows_refl)
next
  case (Cons r rs)
  obtain x s1 where x: "sync_record E L c r s = (x, s1)" by (cases "sync_record E L c r s")
  show ?case
  proof (cases "shouldSyncToGoogle r")
    case True
    have "grows s s1" using x by (rule grows_sync_record)
    moreover have "grows s1 (snd (syncObsidianToGoogle E L c rs s1))" by (rule Cons.IH)
    ultimately have "grows s (snd (syncObsidianToGoogle E L c rs s1))" by (rule grows_trans)
    then show ?thesis using True x by (auto split: prod.splits)
  next
    case False
    then show ?thesis using Cons.IH [of s] by simp
  qed
qed

lemma grows_createNote: "createNoteFromGoogleEvent E L g c s = (x, s') \<Longrightarrow> grows s s'"
  unfolding createNoteFromGoogleEvent_def Let_def grows_def
  by (auto simp: trace_track split: sum.splits prod.splits if_splits dest!: perform_trace)

lemma grows_updateNote: "updateNoteFromGoogleEvent E L r g c s = (x, s') \<Longrightarrow> grows s s'"
  unfolding updateNoteFromGoogleEvent_def Let_def grows_def
  by (auto split: sum.splits prod.splits dest!: perform_trace)

lemma grows_sync_event: "grows s (snd (sync_event E L c rs e s))"
proof -
  obtain b g where e: "e = (b, g)" by (cases e)
  show ?thesis
  proof (cases "recordsByEventId_get rs b")
    case None
    then show ?thesis
      by (auto simp: sync_event_def e grows_refl split: sum.splits prod.splits dest: grows_createNote)
  next
    case (Some r)
    then show ?thesis
      by (auto simp: sync_event_def e Let_def grows_refl split: sum.splits prod.splits
            dest: grows_updateNote)
  qed
qed

lemma grows_sync_events: "grows s (snd (sync_events E L c rs es s))"
proof (induction es arbitrary: s)
  case Nil
  then show ?case by (simp add: grows_refl)
next
  case (Cons e es)
  have "grows s (snd (sync_event E L c rs e s))" by (rule grows_sync_event)
  moreover have "grows (snd (sync_event E L c rs e s))
      (snd (sync_events E L c rs es (snd (sync_event E L c rs e s))))" by (rule Cons.IH)
  ultimately have "grows s (snd (sync_events E L c rs es (snd (sync_event E L c rs e s))))"
    by (rule grows_trans)
  then show ?case by (auto split: prod.splits)
qed

lemma sync_body_starts:
  "\<exists>rest. trace (snd (sync_body E L c d r s))
      = trace s @ Notice ''Starting Google Calendar sync...'' # rest"
proof -
  define s1 where "s1 = notice ''Starting Google Calendar sync...'' s"
  define s2 where "s2 = s1\<lparr>eng := (eng s1)\<lparr>conflicts := []\<rparr>\<rparr>"
  define now where "now = clock E (world s2)"
  define timeMin where "timeMin = (case r of
                       Some (a, b) \<Rightarrow> if a \<noteq> [] then a else toISOString (add_months (- 1) now)
                     | None \<Rightarrow> toISOString (add_months (- 1) now))"
  define timeMax where "timeMax = (case r of
                       Some (a, b) \<Rightarrow> if b \<noteq> [] then b else toISOString (add_months 3 now)
                     | None \<Rightarrow> toISOString (add_months 3 now))"
  define rest where "rest = (\<lambda>s2. case perform (GetEvents c timeMin timeMax)
                (api_getEvents E c timeMin timeMax) s2 of
           (Inl err, s3) \<Rightarrow> (Inl err, s3)
         | (Inr googleEvents, s3) \<Rightarrow>
             (let calendarRecords = filter isCalendarEvent d
              in case syncObsidianToGoogle E L c calendarRecords s3 of
                   (obsidianToGoogleCount, s4) \<Rightarrow>
                     (case syncGoogleToObsidian E L c googleEvents calendarRecords s4 of
                        (googleToObsidianCount, s5) \<Rightarrow>
                          (let s6 = s5\<lparr>eng := (eng s5)\<lparr>config_lastSync :=
                                          Some (toISOString (clock E (world s5)))\<rparr>\<rparr>;
                               s7 = notice (''Sync completed: '' @ digits obsidianToGoogleCount
                                             @ '' events to Google, ''
                                             @ digits googleToObsidianCount @ '' from Google'') s6
                           in (Inr \<lparr>obsidianToGoogle = obsidianToGoogleCount,
                                     googleToObsidian = googleToObsidianCount,
                                     resultConflicts = conflicts (eng s7)\<rparr>, s7)))))"
  have t2: "trace s2 = trace s @ [Notice ''Starting Google Calendar sync...'']"
    by (simp add: s2_def s1_def notice_def)
  have b: "sync_body E L c d r s = rest s2"
    by (simp only: sync_body_def Let_def s1_def s2_def now_def timeMin_def timeMax_def rest_def)
  obtain x s3 where g: "perform (GetEvents c timeMin timeMax) (api_getEvents E c timeMin timeMax) s2 = (x, s3)"
    by (cases "perform (GetEvents c timeMin timeMax) (api_getEvents E c timeMin timeMax) s2")
  have g3: "grows s2 s3" using perform_trace [OF g] by (simp add: grows_def)
  have "grows s2 (snd (rest s2))"
  proof (cases x)
    case (Inl err)
    then show ?thesis using g g3 by (simp add: rest_def)
  next
    case (Inr googleEvents)
    define s4 where "s4 = snd (syncObsidianToGoogle E L c (filter isCalendarEvent d) s3)"
    define s5 where "s5 = snd (syncGoogleToObsidian E L c googleEvents (filter isCalendarEvent d) s4)"
    have g4: "grows s3 s4" unfolding s4_def by (rule grows_syncObsidianToGoogle)
    have g5: "grows s4 s5" unfolding s5_def syncGoogleToObsidian_def by (rule grows_sync_events)
    have "grows s2 s5" using g3 g4 g5 grows_trans by metis
    moreover have "\<exists>xs. trace (snd (rest s2)) = trace s5 @ xs"
      using g Inr
      by (simp add: rest_def Let_def s4_def s5_def notice_def split: prod.splits)
    ultimately show ?thesis by (auto simp: grows_def)
  qed
  then show ?thesis
    using t2 b by (auto simp: grows_def)
qed

subsection \<open>The waits\<close>

lemma steady_refl: "steady s s"
  by (simp add: steady_def)

lemma steady_trans: "steady s s1 \<Longrightarrow> steady s1 s2 \<Longrightarrow> steady s s2"
  by (auto simp: steady_def)

lemma steady_perform: "perform a f s = (r, s') \<Longrightarrow> steady s s'"
  by (auto simp: perform_def steady_def split: prod.splits)

lemma steady_track: "steady s (track n g c d E s)"
  by (simp add: track_def steady_def)

lemma steady_updateRecordSyncMetadata:
  "updateRecordSyncMetadata E r i c s = (x, s') \<Longrightarrow> steady s s'"
  by (auto simp: updateRecordSyncMetadata_def Let_def dest: steady_perform)

lemma steady_sync_record: "sync_record E L c r s = (x, s') \<Longrightarrow> steady s s'"
  unfolding sync_record_def Let_def
  by (auto split: option.splits sum.splits prod.splits if_splits
        intro: steady_refl steady_trans steady_track
        dest!: steady_perform steady_updateRecordSyncMetadata)


lemma steady_syncObsidianToGoogle: "steady s (snd (syncObsidianToGoogle E L c rs s))"
proof (induction rs arbitrary: s)
  case Nil
  then show ?case by (simp add: steady_refl)
next
  case (Cons r rs)
  obtain x s1 where x: "sync_record E L c r s = (x, s1)" by (cases "sync_record E L c r s")
  show ?case
  proof (cases "shouldSyncToGoogle r")
    case True
    have "steady s s1" using x by (rule steady_sync_record)
    moreover have "steady s1 (snd (syncObsidianToGoogle E L c rs s1))" by (rule Cons.IH)
    ultimately have "steady s (snd (syncObsidianToGoogle E L c rs s1))" by (rule steady_trans)
    then show ?thesis using True x by (auto split: prod.splits)
  next
    case False
    then show ?thesis using Cons.IH [of s] by simp
  qed
qed

lemma steady_createNote: "createNoteFromGoogleEvent E L g c s = (x, s') \<Longrightarrow> steady s s'"
  unfolding createNoteFromGoogleEvent_def Let_def
  by (auto split: sum.splits prod.splits if_splits
        intro: steady_refl steady_trans steady_track dest!: steady_perform)

lemma steady_updateNote: "updateNoteFromGoogleEvent E L r g c s = (x, s') \<Longrightarrow> steady s s'"
  unfolding updateNoteFromGoogleEvent_def Let_def
  by (auto split: sum.splits prod.splits intro: steady_refl dest!: steady_perform)

lemma steady_sync_event: "steady s (snd (sync_event E L c rs e s))"
proof -
  obtain b g where e: "e = (b, g)" by (cases e)
  show ?thesis
  proof (cases "recordsByEventId_get rs b")
    case None
    then show ?thesis
      by (auto simp: sync_event_def e steady_refl split: sum.splits prod.splits dest: steady_createNote)
  next
    case (Some r)
    then show ?thesis
      by (auto simp: sync_event_def e Let_def steady_refl split: sum.splits prod.splits
            dest: steady_updateNote)
  qed
qed

lemma steady_sync_events: "steady s (snd (sync_events E L c rs es s))"
proof (induction es arbitrary: s)
  case Nil
  then show ?case by (simp add: steady_refl)
next
  case (Cons e es)
  have "steady s (snd (sync_event E L c rs e s))" by (rule steady_sync_event)
  moreover have "steady (snd (sync_event E L c rs e s))
      (snd (sync_events E L c rs es (snd (sync_event E L c rs e s))))" by (rule Cons.IH)
  ultimately have "steady s (snd (sync_events E L c rs es (snd (sync_event E L c rs e s))))"
    by (rule steady_trans)
  then show ?case by (auto split: prod.splits)
qed

lemma sync_body_waits:
  "\<exists>fs. awaits (snd (sync_body E L c d r s)) = awaits s @ syncInProgress (eng s) # fs
      \<and> set fs \<subseteq> {syncInProgress (eng s)}
      \<and> syncInProgress (eng (snd (sync_body E L c d r s))) = syncInProgress (eng s)"
proof -
  define s1 where "s1 = notice ''Starting Google Calendar sync...'' s"
  define s2 where "s2 = s1\<lparr>eng := (eng s1)\<lparr>conflicts := []\<rparr>\<rparr>"
  define now where "now = clock E (world s2)"
  define timeMin where "timeMin = (case r of
                       Some (a, b) \<Rightarrow> if a \<noteq> [] then a else toISOString (add_months (- 1) now)
                     | None \<Rightarrow> toISOString (add_months (- 1) now))"
  define timeMax where "timeMax = (case r of
                       Some (a, b) \<Rightarrow> if b \<noteq> [] then b else toISOString (add_months 3 now)
                     | None \<Rightarrow> toISOString (add_months 3 now))"
  define rest where "rest = (\<lambda>s2. case perform (GetEvents c timeMin timeMax)
                (api_getEvents E c timeMin timeMax) s2 of
           (Inl err, s3) \<Rightarrow> (Inl err, s3)
         | (Inr googleEvents, s3) \<Rightarrow>
             (let calendarRecords = filter isCalendarEvent d
              in case syncObsidianToGoogle E L c calendarRecords s3 of
                   (obsidianToGoogleCount, s4) \<Rightarrow>
                     (case syncGoogleToObsidian E L c googleEvents calendarRecords s4 of
                        (googleToObsidianCount, s5) \<Rightarrow>
                          (let s6 = s5\<lparr>eng := (eng s5)\<lparr>config_lastSync :=
                                          Some (toISOString (clock E (world s5)))\<rparr>\<rparr>;
                               s7 = notice (''Sync completed: '' @ digits obsidianToGoogleCount
                                             @ '' events to Google, ''
                                             @ digits googleToObsidianCount @ '' from Google'') s6
                           in (Inr \<lparr>obsidianToGoogle = obsidianToGoogleCount,
                                     googleToObsidian = googleToObsidianCount,
                                     resultConflicts = conflicts (eng s7)\<rparr>, s7)))))"
  let ?f = "syncInProgress (eng s)"
  have t2: "awaits s2 = awaits s" "syncInProgress (eng s2) = ?f"
    by (simp_all add: s2_def s1_def notice_def)
  have b: "sync_body E L c d r s = rest s2"
    by (simp only: sync_body_def Let_def s1_def s2_def now_def timeMin_def timeMax_def rest_def)
  obtain x s3 where g: "perform (GetEvents c timeMin timeMax) (api_getEvents E c timeMin timeMax) s2 = (x, s3)"
    by (cases "perform (GetEvents c timeMin timeMax) (api_getEvents E c timeMin timeMax) s2")
  have g3: "awaits s3 = awaits s @ [?f]" "syncInProgress (eng s3) = ?f"
    using g t2 by (auto simp: perform_def split: prod.splits)
  have "\<exists>fs. awaits (snd (rest s2)) = awaits s3 @ fs \<and> set fs \<subseteq> {?f}
      \<and> syncInProgress (eng (snd (rest s2))) = ?f"
  proof (cases x)
    case (Inl err)
    then show ?thesis using g g3 by (simp add: rest_def)
  next
    case (Inr googleEvents)
    define s4 where "s4 = snd (syncObsidianToGoogle E L c (filter isCalendarEvent d) s3)"
    define s5 where "s5 = snd (syncGoogleToObsidian E L c googleEvents (filter isCalendarEvent d) s4)"
    have g4: "steady s3 s4" unfolding s4_def by (rule steady_syncObsidianToGoogle)
    have g5: "steady s4 s5" unfolding s5_def syncGoogleToObsidian_def by (rule steady_sync_events)
    have "steady s3 s5" using g4 g5 by (rule steady_trans)
    moreover have "awaits (snd (rest s2)) = awaits s5
        \<and> syncInProgress (eng (snd (rest s2))) = syncInProgress (eng s5)"
      using g Inr
      by (simp add: rest_def Let_def s4_def s5_def notice_def split: prod.splits)
    ultimately show ?thesis using g3 by (auto simp: steady_def)
  qed
  then show ?thesis
    using g3 b by auto
qed

lemma performSync_waits:
  assumes idle: "\<not> syncInProgress (eng s)" and cal: "trim c \<noteq> []"
  shows "\<exists>fs. waited s (snd (performSync E L (Some c) (Some d) r s)) = True # fs
           \<and> set fs \<subseteq> {True}"
proof -
  let ?s0 = "s\<lparr>eng := (eng s)\<lparr>syncInProgress := True\<rparr>\<rparr>"
  obtain x sb where sb: "sync_body E L c d r ?s0 = (x, sb)"
    by (cases "sync_body E L c d r ?s0")
  obtain fs where fs: "awaits sb = awaits s @ True # fs" "set fs \<subseteq> {True}"
    using sync_body_waits [of E L c d r ?s0] sb by auto
  have "awaits (snd (performSync E L (Some c) (Some d) r s)) = awaits sb"
    using idle cal sb by (cases x) (simp_all add: performSync_def Let_def notice_def)
  then show ?thesis using fs by (simp add: waited_def)
qed

text \<open>
  C1 (as amended). A call of \<open>performSync\<close> runs without interruption up to its first
  \<open>await\<close>, so a second call can start only while the first one waits for a collaborator. A
  first call that finds the flag clear and is given a calendar id that is not blank and a record
  set sets the flag before it waits: it waits at least once, and at each of its waits the flag
  is set. A call with a calendar id that is not blank and a record set that starts while the
  flag is set fails with \<open>SYNC_IN_PROGRESS\<close> and returns the state it found: nothing is added
  to the trace (no remote call, no record mutation), and the engine and the world are
  unchanged, so the first call continues from the very state it would have had without the
  second call.
\<close>

theorem second_call_rejected:
  assumes idle: "\<not> syncInProgress (eng s)" and first: "trim calendarId' \<noteq> []"
    and second: "trim calendarId2 \<noteq> []"
  shows "waited s (snd (performSync E L (Some calendarId') (Some records) dateRange s)) \<noteq> []
       \<and> (\<forall>b \<in> set (waited s (snd (performSync E L (Some calendarId') (Some records)
                 dateRange s))). b)
       \<and> (\<forall>t. syncInProgress (eng t) \<longrightarrow>
             performSync E2 L2 (Some calendarId2) (Some records2) dateRange2 t
               = (Inl sync_in_progress, t))"
proof -
  obtain fs where "waited s (snd (performSync E L (Some calendarId') (Some records) dateRange s))
      = True # fs" "set fs \<subseteq> {True}"
    using performSync_waits [OF idle first] by blast
  then show ?thesis
    using second by (auto simp: performSync_def)
qed

theorem second_call_rejected_witness:
  "waited idle (snd (performSync quiet_env iso_lib (Some ''primary'') (Some [fresh_record]) None idle))
     = [True, True, True]
   \<and> performSync quiet_env iso_lib (Some ''primary'') (Some [fresh_record]) None busy
     = (Inl \<lparr>g_type = SYNC_IN_PROGRESS, g_message = ''Sync already in progress''\<rparr>, busy)"
proof -
  have i: "\<not> syncInProgress (eng idle)"
    by (simp add: idle_def)
  have r: "syncInProgress (eng busy)"
    by (simp add: busy_def idle_def)
  have c: "trim ''primary'' \<noteq> []"
    by code_simp
  have w: "waited idle (snd (performSync quiet_env iso_lib (Some ''primary'') (Some [fresh_record])
      None idle)) = [True, True, True]"
    by code_simp
  note t = second_call_rejected [OF i c c, of quiet_env iso_lib "[fresh_record]" None quiet_env
      iso_lib "[fresh_record]" None]
  have "performSync quiet_env iso_lib (Some ''primary'') (Some [fresh_record]) None busy
     = (Inl sync_in_progress, busy)"
    using t [THEN conjunct2, THEN conjunct2, THEN spec, THEN mp, OF r] .
  then show ?thesis using w by (simp add: sync_in_progress_def)
qed

text \<open>
  C1 as stated fails for a second call whose calendar id is not empty but blank: the check of
  the calendar id comes before the check of the flag, and the call fails with
  \<open>INVALID_CONFIGURATION\<close>, not with \<open>SYNC_IN_PROGRESS\<close>.
\<close>

theorem blank_calendar_id_counterexample:
  "'' '' \<noteq> []
   \<and> syncInProgress (eng busy)
   \<and> performSync quiet_env iso_lib (Some '' '') (Some [fresh_record]) None busy
     = (Inl \<lparr>g_type = INVALID_CONFIGURATION, g_message = ''Calendar ID is required for sync''\<rparr>,
        busy)"
  by code_simp

text \<open>
  C9 (as amended). When \<open>performSync\<close> returns, normally or with an error: if the flag was
  clear at the start it is clear at the end, \<open>getSyncStatus\<close> reports the engine inactive, and a
  later call with a calendar id and a record set is not rejected at the guard but starts its
  pass. If the flag was set at the start (another invocation is running), the call was rejected
  by one of the three checks before the \<open>try\<close> block and left the state, the flag included, as
  it was.
\<close>

theorem flag_after_performSync:
  assumes p: "performSync E L calendarId' dataFrame dateRange s = (res, s')"
  shows "(\<not> syncInProgress (eng s) \<longrightarrow>
            \<not> syncInProgress (eng s') \<and> \<not> isActive (getSyncStatus s')
            \<and> (\<forall>c d r. trim c \<noteq> [] \<longrightarrow>
                  (\<exists>rest. added s' (snd (performSync E L (Some c) (Some d) r s'))
                     = Notice ''Starting Google Calendar sync...'' # rest)))
       \<and> (syncInProgress (eng s) \<longrightarrow>
            s' = s
            \<and> (\<exists>e. res = Inl e
                  \<and> g_type e \<in> {INVALID_CONFIGURATION, VALIDATION_ERROR, SYNC_IN_PROGRESS}))"
proof (intro conjI impI)
  assume idle: "\<not> syncInProgress (eng s)"
  show f: "\<not> syncInProgress (eng s')"
    using p idle
    by (auto simp: performSync_def Let_def notice_def split: option.splits sum.splits prod.splits if_splits)
  then show "\<not> isActive (getSyncStatus s')"
    by (simp add: getSyncStatus_def)
  show "\<forall>c d r. trim c \<noteq> [] \<longrightarrow>
          (\<exists>rest. added s' (snd (performSync E L (Some c) (Some d) r s'))
             = Notice ''Starting Google Calendar sync...'' # rest)"
  proof (intro allI impI)
    fix c d r
    assume c: "trim c \<noteq> []"
    let ?s1 = "s'\<lparr>eng := (eng s')\<lparr>syncInProgress := True\<rparr>\<rparr>"
    obtain rest where b: "trace (snd (sync_body E L c d r ?s1))
        = trace s' @ Notice ''Starting Google Calendar sync...'' # rest"
      using sync_body_starts [of E L c d r ?s1] by auto
    obtain x sb where sb: "sync_body E L c d r ?s1 = (x, sb)"
      by (cases "sync_body E L c d r ?s1")
    have "\<exists>more. trace (snd (performSync E L (Some c) (Some d) r s'))
        = trace s' @ Notice ''Starting Google Calendar sync...'' # more"
      using c f b sb by (cases x) (auto simp: performSync_def Let_def notice_def)
    then show "\<exists>rest. added s' (snd (performSync E L (Some c) (Some d) r s'))
             = Notice ''Starting Google Calendar sync...'' # rest"
      by (auto simp: added_def)
  qed
next
  assume busy: "syncInProgress (eng s)"
  show "s' = s"
    using p busy by (auto simp: performSync_def split: option.splits if_splits)
  show "\<exists>e. res = Inl e \<and> g_type e \<in> {INVALID_CONFIGURATION, VALIDATION_ERROR, SYNC_IN_PROGRESS}"
    using p busy by (auto simp: performSync_def sync_in_progress_def split: option.splits if_splits)
qed


theorem flag_after_performSync_witness:
  "\<not> syncInProgress (eng (snd (performSync quiet_env iso_lib (Some ''primary'')
        (Some [fresh_record]) None idle)))
   \<and> \<not> syncInProgress (eng (snd (performSync offline_env iso_lib (Some ''primary'')
        (Some [fresh_record]) None idle)))"
proof -
  have i: "\<not> syncInProgress (eng idle)"
    by (simp add: idle_def)
  obtain r1 s1 where p1: "performSync quiet_env iso_lib (Some ''primary'') (Some [fresh_record])
      None idle = (r1, s1)"
    by (cases "performSync quiet_env iso_lib (Some ''primary'') (Some [fresh_record]) None idle")
  obtain r2 s2 where p2: "performSync offline_env iso_lib (Some ''primary'') (Some [fresh_record])
      None idle = (r2, s2)"
    by (cases "performSync offline_env iso_lib (Some ''primary'') (Some [fresh_record]) None idle")
  have "\<not> syncInProgress (eng s1)"
    using flag_after_performSync [OF p1, THEN conjunct1, THEN mp, OF i] by simp
  moreover have "\<not> syncInProgress (eng s2)"
    using flag_after_performSync [OF p2, THEN conjunct1, THEN mp, OF i] by simp
  ultimately show ?thesis using p1 p2 by simp
qed

text \<open>
  C9 as stated fails for an invocation that is rejected while another one is running: it
  terminates by throwing \<open>SYNC_IN_PROGRESS\<close>, and the flag is still set afterwards.
\<close>

theorem rejected_call_leaves_flag_counterexample:
  "fst (performSync quiet_env iso_lib (Some ''primary'') (Some [fresh_record]) None busy)
     = Inl \<lparr>g_type = SYNC_IN_PROGRESS, g_message = ''Sync already in progress''\<rparr>
   \<and> syncInProgress (eng (snd (performSync quiet_env iso_lib (Some ''primary'')
        (Some [fresh_record]) None busy)))
   \<and> isActive (getSyncStatus (snd (performSync quiet_env iso_lib (Some ''primary'')
        (Some [fresh_record]) None busy)))"
  by code_simp









text \<open>
  C7. The note of a recurring master event is named from the sanitized title, the literal
  \<open>recurring\<close> and the short master id, and the specification wants creation skipped when a
  record of that name exists. The guard of \<open>syncGoogleToObsidian\<close> looks for the dated name of a
  one-off event instead, so with a local record of the recurring name (and no stored event id)
  the engine still asks the record store to create a note of that very name.
\<close>

theorem recurring_duplicate_not_skipped:
  "rid homonym_record = ''Standup - recurring-abcdefgh.md''
   \<and> recordsByEventId_get [homonym_record] (baseId_of weekly_master) = None
   \<and> guard_name quiet_env iso_lib weekly_master idle = ''Standup - 2024-01-02 - abcdefgh.md''
   \<and> created_names (trace (snd (syncGoogleToObsidian quiet_env iso_lib ''primary''
         [weekly_master] [homonym_record] idle))) = [''Standup - recurring-abcdefgh.md'']"
  by code_simp

subsection \<open>Deletion\<close>

lemma deleted_ids_simps:
  "deleted_ids [] = []"
  "deleted_ids (DeleteRecord i # tr) = i # deleted_ids tr"
  "deleted_ids (DeleteEvent c e # tr) = deleted_ids tr"
  "deleted_ids (Notice m # tr) = deleted_ids tr"
  by (simp_all add: deleted_ids_def)

lemma deleteGoogleEvent_not_attempted:
  "\<not> (truthy (field (vals r) ''google-event-id'') \<and> truthy (field (vals r) ''google-calendar-id''))
   \<Longrightarrow> deleteGoogleEvent E r s = (Inr (), s)"
  by (auto simp: deleteGoogleEvent_def Let_def extractGoogleCalendarMetadata_def)

lemma deleteGoogleEvent_attempted:
  assumes "truthy (field (vals r) ''google-event-id'')" "truthy (field (vals r) ''google-calendar-id'')"
    and "remote_delete E r (world s) = (x, w)"
  shows "\<exists>s1. deleteGoogleEvent E r s = (x, s1)
           \<and> (\<exists>c i. trace s1 = trace s @ [DeleteEvent c i])"
proof -
  obtain i where i: "field (vals r) ''google-event-id'' = Some i"
    using assms(1) by (cases "field (vals r) ''google-event-id''") auto
  obtain c where c: "field (vals r) ''google-calendar-id'' = Some c"
    using assms(2) by (cases "field (vals r) ''google-calendar-id''") auto
  have a: "api_deleteEvent E c i (world s) = (x, w)"
    using assms(3) i c by (simp add: remote_delete_def)
  show ?thesis
    using assms(1,2) i c a
    by (cases x)
      (auto simp: deleteGoogleEvent_def Let_def extractGoogleCalendarMetadata_def perform_def)
qed

lemma deleted_ids_append: "deleted_ids (xs @ ys) = deleted_ids xs @ deleted_ids ys"
  by (induction xs) (auto simp: deleted_ids_def split: action.splits)

lemma onRecordDelete_not_attempted:
  assumes "\<not> remote_delete_attempted (Some h) r"
  shows "\<exists>s1 xs. onRecordDelete E h r s = (Inr (), s1) \<and> trace s1 = trace s @ xs
           \<and> deleted_ids xs = []"
proof (cases "h \<and> isCalendarEvent r")
  case False
  then show ?thesis
    by (auto simp: onRecordDelete_def deleted_ids_simps)
next
  case True
  then have "deleteGoogleEvent E r s = (Inr (), s)"
    using assms by (intro deleteGoogleEvent_not_attempted) (auto simp: remote_delete_attempted_def)
  then show ?thesis
    using True by (simp add: onRecordDelete_def notice_def deleted_ids_simps)
qed

lemma onRecordDelete_attempted:
  assumes a: "remote_delete_attempted (Some h) r"
    and d: "remote_delete E r (world s) = (x, w)"
  shows "\<exists>s1 xs. trace s1 = trace s @ xs \<and> deleted_ids xs = []
     \<and> (case x of
           Inl err \<Rightarrow> onRecordDelete E h r s = (Inl (fromError err), s1)
         | Inr u \<Rightarrow> onRecordDelete E h r s = (Inr (), s1))"
proof -
  have h: "h" "isCalendarEvent r" "truthy (field (vals r) ''google-event-id'')"
    "truthy (field (vals r) ''google-calendar-id'')"
    using a by (simp_all add: remote_delete_attempted_def)
  obtain s1 c i where s1: "deleteGoogleEvent E r s = (x, s1)" "trace s1 = trace s @ [DeleteEvent c i]"
    using deleteGoogleEvent_attempted [OF h(3,4) d] by blast
  show ?thesis
    using h(1,2) s1
    by (cases x) (auto simp: onRecordDelete_def Let_def notice_def deleted_ids_simps)
qed

lemma onRecordDelete_total:
  "\<exists>x s1 xs. onRecordDelete E h r s = (x, s1) \<and> trace s1 = trace s @ xs \<and> deleted_ids xs = []
      \<and> (remote_delete_attempted (Some h) r \<longrightarrow>
            (case fst (remote_delete E r (world s)) of
               Inl err \<Rightarrow> x = Inl (fromError err) | Inr u \<Rightarrow> x = Inr ()))
      \<and> (\<not> remote_delete_attempted (Some h) r \<longrightarrow> x = Inr ())"
proof (cases "remote_delete_attempted (Some h) r")
  case True
  obtain y w where d: "remote_delete E r (world s) = (y, w)"
    by (cases "remote_delete E r (world s)")
  show ?thesis
    using onRecordDelete_attempted [OF True d] True d by (cases y) auto
next
  case False
  then show ?thesis
    using onRecordDelete_not_attempted [OF False, where E = E and s = s] by auto
qed

lemma handle_virtual:
  "deleted_ids (added s (handleRecordDelete E m r True s)) = []"
proof (cases m)
  case None
  then show ?thesis by (simp add: handleRecordDelete_def added_self deleted_ids_simps)
next
  case (Some h)
  obtain x s1 xs where o: "onRecordDelete E h r s = (x, s1)" "trace s1 = trace s @ xs"
      "deleted_ids xs = []"
    using onRecordDelete_total [of E h r s] by blast
  show ?thesis
    using Some o
    by (cases x)
      (simp_all add: handleRecordDelete_def notice_def added_def deleted_ids_append deleted_ids_simps)
qed

lemma handle_after_success:
  assumes o: "(case m of Some h \<Rightarrow> onRecordDelete E h r s | None \<Rightarrow> (Inr (), s)) = (Inr u, s1)"
    and t: "trace s1 = trace s @ xs" "deleted_ids xs = []"
  shows "deleted_ids (added s (handleRecordDelete E m r False s)) = [rid r]"
proof -
  obtain y w where v: "view_deleteRecord E (rid r) (world s1) = (y, w)"
    by (cases "view_deleteRecord E (rid r) (world s1)")
  show ?thesis
    using o t v
    by (cases y)
      (simp_all add: handleRecordDelete_def perform_def notice_def added_def deleted_ids_append
         deleted_ids_simps)
qed

lemma handle_after_failure:
  assumes o: "(case m of Some h \<Rightarrow> onRecordDelete E h r s | None \<Rightarrow> (Inr (), s)) = (Inl e, s1)"
    and t: "trace s1 = trace s @ xs" "deleted_ids xs = []"
  shows "deleted_ids (added s (handleRecordDelete E m r False s)) = []"
  using o t
  by (simp add: handleRecordDelete_def notice_def added_def deleted_ids_append deleted_ids_simps)

text \<open>
  C8 (as amended). Deleting a virtual occurrence never asks the local store to delete anything.
  Deleting a non-virtual record asks the local store to delete that record once when no remote
  delete is attempted or when the remote delete succeeds; when the remote delete is attempted
  and fails, the local store is not asked to delete anything.
\<close>

theorem delete_propagation:
  "deleted_ids (added s (handleRecordDelete E m r True s)) = []
   \<and> (\<not> remote_delete_attempted m r \<longrightarrow>
         deleted_ids (added s (handleRecordDelete E m r False s)) = [rid r])
   \<and> (remote_delete_attempted m r \<longrightarrow>
         (\<forall>u w. remote_delete E r (world s) = (Inr u, w) \<longrightarrow>
            deleted_ids (added s (handleRecordDelete E m r False s)) = [rid r])
         \<and> (\<forall>err w. remote_delete E r (world s) = (Inl err, w) \<longrightarrow>
            deleted_ids (added s (handleRecordDelete E m r False s)) = []))"
proof (intro conjI impI allI)
  show "deleted_ids (added s (handleRecordDelete E m r True s)) = []"
    by (rule handle_virtual)
next
  assume n: "\<not> remote_delete_attempted m r"
  show "deleted_ids (added s (handleRecordDelete E m r False s)) = [rid r]"
  proof (cases m)
    case None
    then show ?thesis
      by (intro handle_after_success [where xs = "[]" and ?s1.0 = s]) (simp_all add: deleted_ids_simps)
  next
    case (Some h)
    then obtain s1 xs where "onRecordDelete E h r s = (Inr (), s1)" "trace s1 = trace s @ xs"
        "deleted_ids xs = []"
      using onRecordDelete_not_attempted [where h = h and r = r and E = E and s = s] n by auto
    then show ?thesis
      using Some by (intro handle_after_success [where xs = xs and ?s1.0 = s1]) simp_all
  qed
next
  fix u w
  assume a: "remote_delete_attempted m r" and d: "remote_delete E r (world s) = (Inr u, w)"
  then have m: "m = Some True" by (simp add: remote_delete_attempted_def)
  obtain s1 xs where "trace s1 = trace s @ xs" "deleted_ids xs = []"
      "onRecordDelete E True r s = (Inr (), s1)"
    using onRecordDelete_attempted [OF a [unfolded m] d] by auto
  then show "deleted_ids (added s (handleRecordDelete E m r False s)) = [rid r]"
    using m by (intro handle_after_success [where xs = xs and ?s1.0 = s1]) simp_all
next
  fix err w
  assume a: "remote_delete_attempted m r" and d: "remote_delete E r (world s) = (Inl err, w)"
  then have m: "m = Some True" by (simp add: remote_delete_attempted_def)
  obtain s1 xs where "trace s1 = trace s @ xs" "deleted_ids xs = []"
      "onRecordDelete E True r s = (Inl (fromError err), s1)"
    using onRecordDelete_attempted [OF a [unfolded m] d] by auto
  then show "deleted_ids (added s (handleRecordDelete E m r False s)) = []"
    using m by (intro handle_after_failure [where xs = xs and ?s1.0 = s1]) simp_all
qed

theorem delete_propagation_witness:
  "deleted_ids (added idle (handleRecordDelete quiet_env (Some True) pushed_record True idle)) = []
   \<and> deleted_ids (added idle (handleRecordDelete quiet_env (Some True) pushed_record False idle))
       = [''Review.md'']"
proof -
  have a: "remote_delete_attempted (Some True) pushed_record"
    by code_simp
  have d: "remote_delete quiet_env pushed_record (world idle) = (Inr (), ())"
    by code_simp
  have r: "rid pushed_record = ''Review.md''"
    by (simp add: pushed_record_def)
  note p = delete_propagation [of idle quiet_env "Some True" pushed_record]
  show ?thesis
    using p [THEN conjunct1]
      p [THEN conjunct2, THEN conjunct2, THEN mp, OF a, THEN conjunct1, THEN spec, THEN spec,
         THEN mp, OF d] r
    by simp
qed

text \<open>
  C8 as stated fails when the remote service is unreachable: the manager rethrows the failure
  of the remote delete, and the view shows its failure notice without deleting the record.
\<close>

theorem failed_remote_delete_counterexample:
  "remote_delete_attempted (Some True) pushed_record
   \<and> trace (handleRecordDelete offline_env (Some True) pushed_record False idle)
       = [DeleteEvent (VStr ''primary'') (VStr ''e1''),
          Notice ''Failed to delete calendar event: Network error occurred. Please check your internet connection.'',
          Notice ''Failed to delete record. Please try again.'']
   \<and> deleted_ids (trace (handleRecordDelete offline_env (Some True) pushed_record False idle)) = []"
  by code_simp

end
